theory Spec2Isabelle
  imports Main "HOL-Library.Sublist"
begin

section \<open>Runtime objects, scope and hints\<close>

text \<open>
  The generator \<open>pep_code_check_hint\<close> of \<open>beartype/_decor/_code/_pep/_pephint.py\<close> walks a
  type hint breadth-first and emits one boolean Python expression. Classes are identified
  by their names. A runtime value is an object of some class, with a payload telling
  objects of one class apart and, when its class is a sequence class, its items.
\<close>

type_synonym cls = string

datatype pyval = Val cls string "pyval list"

fun type_of :: "pyval \<Rightarrow> cls" where
  "type_of (Val c _ _) = c"

fun items_of :: "pyval \<Rightarrow> pyval list" where
  "items_of (Val _ _ xs) = xs"

text \<open>
  Modelled from the spec: the Scope Builder (\<open>add_func_scope_type\<close>,
  \<open>add_func_scope_types\<close>, \<open>add_func_scope_attr\<close> of
  \<open>beartype._util.func.utilfuncscope\<close>, whose code is not part of the sources) registers a
  type, a tuple of types or a literal value in the scope and returns a stable name for it;
  an equal value gets the same name. A name is therefore represented by the value it
  stands for. \<open>NTypistry\<close> and \<open>NGetrandbits\<close> are the hidden parameters
  \<open>ARG_NAME_TYPISTRY\<close> and \<open>ARG_NAME_GETRANDBITS\<close>; \<open>NLocal\<close> is a name chosen by a
  validator.
\<close>

datatype name = NType cls | NTypes "cls list" | NAttr pyval | NTypistry | NGetrandbits
  | NLocal string

datatype obj = OType cls | OTypes "cls list" | OAttr pyval | OTypistry | OGetrandbits
  | OLocal string

type_synonym scope = "name \<rightharpoonup> obj"

datatype exn =
    BeartypeDecorHintPepException
  | BeartypeDecorHintPepUnsupportedException
  | BeartypeDecorHintPep484Exception
  | BeartypeDecorHintPep586Exception
  | BeartypeDecorHintPep593Exception
  | AssertionError
  | IndexError
  | OtherException string

text \<open>
  Signs are the unsubscripted \<open>typing\<close> attributes identifying a kind of hint. The signs the
  generator compares with \<open>is\<close> have constructors of their own; all others are named.
\<close>

datatype sign = SignAnnotated | SignForwardRef | SignGeneric | SignLiteral | Sign string

text \<open>
  An object subscripting \<open>typing.Annotated\<close> is either a beartype validator (an instance of
  \<open>_SubscriptedIs\<close>, with its code and the locals that code needs) or any other object.
\<close>

datatype metadatum =
    SubscriptedIs (is_valid_code: string) (is_valid_code_locals: "(string \<times> string) list")
  | NotSubscriptedIs string

text \<open>
  A hint is an arbitrary Python object. The constructors keep what the classifier
  functions imported by \<open>_pephint.py\<close> (none of which is part of the sources) read from it:
  \<^item> \<open>HNone\<close> is \<open>None\<close>, \<open>HEllipsis\<close> is \<open>...\<close>, \<open>HClass\<close> a class that is not PEP-compliant,
    \<open>HObject\<close> any other object that is neither a hint nor a class (such as \<open>()\<close>);
  \<^item> \<open>HAttr s\<close> is the unsubscripted attribute \<open>s\<close> (a hint that is its own sign) and
    \<open>HSub s args\<close> the sign \<open>s\<close> subscripted by \<open>args\<close>;
  \<^item> \<open>HAnnotated h m ms\<close> is \<open>Annotated[h, m, *ms]\<close>;
  \<^item> \<open>HGeneric c bs\<close> is a generic whose class is \<open>c\<close>; \<open>bs\<close> lists each unerased
    pseudo-superclass with the erased superclass
    \<open>get_hint_pep484_generic_base_erased_from_unerased\<close> maps it to;
  \<^item> \<open>HLiteral vs\<close> is \<open>Literal[*vs]\<close>, \<open>HNewType c\<close> a new type aliasing class \<open>c\<close>, and
    \<open>HIOGeneric p\<close> an IO generic base class whose protocol is \<open>p\<close>.
\<close>

datatype hint =
    HNone
  | HEllipsis
  | HClass cls
  | HObject string
  | HAttr sign
  | HSub sign "hint list"
  | HAnnotated hint metadatum "metadatum list"
  | HForwardRef string
  | HGeneric cls "(hint \<times> hint) list"
  | HLiteral "pyval list"
  | HNewType cls
  | HIOGeneric hint

definition NoReturn :: hint where
  "NoReturn = HAttr (Sign ''NoReturn'')"

definition NoneType :: cls where
  "NoneType = ''NoneType''"

fun is_hint_pep :: "hint \<Rightarrow> bool" where
  "is_hint_pep HNone = False"
| "is_hint_pep HEllipsis = False"
| "is_hint_pep (HClass _) = False"
| "is_hint_pep (HObject _) = False"
| "is_hint_pep _ = True"

fun is_type :: "hint \<Rightarrow> bool" where
  "is_type (HClass _) = True"
| "is_type (HGeneric _ _) = True"
| "is_type _ = False"

fun get_hint_pep_sign :: "hint \<Rightarrow> sign" where
  "get_hint_pep_sign (HAttr s) = s"
| "get_hint_pep_sign (HSub s _) = s"
| "get_hint_pep_sign (HAnnotated _ _ _) = SignAnnotated"
| "get_hint_pep_sign (HForwardRef _) = SignForwardRef"
| "get_hint_pep_sign (HGeneric _ _) = SignGeneric"
| "get_hint_pep_sign (HLiteral _) = SignLiteral"
| "get_hint_pep_sign (HNewType _) = Sign ''NewType''"
| "get_hint_pep_sign (HIOGeneric _) = SignGeneric"
| "get_hint_pep_sign _ = Sign ''''"

fun get_hint_pep_args :: "hint \<Rightarrow> hint list" where
  "get_hint_pep_args (HSub _ args) = args"
| "get_hint_pep_args _ = []"

fun is_hint_own_sign :: "hint \<Rightarrow> bool" where
  "is_hint_own_sign (HAttr _) = True"
| "is_hint_own_sign _ = False"

fun isinstance_SubscriptedIs :: "metadatum \<Rightarrow> bool" where
  "isinstance_SubscriptedIs (SubscriptedIs _ _) = True"
| "isinstance_SubscriptedIs (NotSubscriptedIs _) = False"

fun is_hint_pep_tuple_empty :: "hint \<Rightarrow> bool" where
  "is_hint_pep_tuple_empty (HSub _ []) = True"
| "is_hint_pep_tuple_empty (HSub _ [HObject s]) = (s = ''()'')"
| "is_hint_pep_tuple_empty _ = False"

text \<open>
  The tables and testers of \<open>beartype._util.hint\<close> that the generator consults, and the two
  constants it reads, are parameters: their code is not part of the sources.
  \<open>die_if_hint_pep_unsupported\<close>, \<open>die_if_hint_pep_sign_unsupported\<close> and
  \<open>die_unless_hint_pep586\<close> raise exactly when the corresponding predicate says so, and
  \<open>get_hint_pep_stdlib_type\<close> raises when the hint has no origin type.
\<close>

record config =
  IS_PYTHON_AT_LEAST_3_8 :: bool
  SIZE_BIG :: nat
  HINT_PEP484_SIGNS_UNION :: "sign set"
  HINT_PEP_SIGNS_SEQUENCE_STANDARD :: "sign set"
  HINT_PEP_SIGNS_TUPLE :: "sign set"
  HINT_PEP_SIGNS_TYPE_ORIGIN_STDLIB :: "sign set"
  HINT_PEP_SIGNS_SUPPORTED_DEEP :: "sign set"
  HINTS_IGNORABLE_SHALLOW :: "hint set"
  is_hint_ignorable :: "hint \<Rightarrow> bool"
  is_hint_pep_unsupported :: "hint \<Rightarrow> bool"
  is_hint_pep_sign_unsupported :: "sign \<Rightarrow> bool"
  is_hint_pep586 :: "hint \<Rightarrow> bool"
  get_hint_pep_stdlib_type :: "hint \<Rightarrow> cls option"
  is_hint_pep585_builtin :: "hint \<Rightarrow> bool"
  is_hint_pep_typing :: "hint \<Rightarrow> bool"

section \<open>Generated code\<close>

text \<open>
  Snippets are kept as syntax trees of the Python text the templates of \<open>_pepsnip.py\<close>
  expand to; comments and indentation are dropped. \<open>PVar n\<close> is the local variable
  \<open>__beartype_pith_n\<close> (\<open>PEP_CODE_PITH_NAME_PREFIX\<close> followed by \<open>n\<close>), \<open>PAssign n e\<close> the
  assignment expression \<open>__beartype_pith_n := e\<close> (\<open>PEP_CODE_PITH_ASSIGN_EXPR\<close>),
  \<open>PRandItem e\<close> the text \<open>e[__beartype_random_int % len(e)]\<close>
  (\<open>PEP_CODE_CHECK_HINT_SEQUENCE_STANDARD_PITH_CHILD_EXPR\<close>, in which \<open>e\<close> occurs twice)
  and \<open>PItem e i\<close> the text \<open>e[i]\<close>.
\<close>

datatype pexpr = PVar nat | PAssign nat pexpr | PRandItem pexpr | PItem pexpr nat

text \<open>
  The second argument of an \<open>isinstance\<close> test: a name bound in the scope, the placeholder
  \<open>${FORWARDREF:name]?\<close> of an unqualified forward reference, the expression
  \<open>register_typistry_forwardref\<close> returns for a qualified one, or the builtin \<open>tuple\<close>.
\<close>

datatype texpr = TName name | TForwardrefUnqualified string | TTypistry string | TTuple

text \<open>
  \<open>Placeholder p\<close> is the text \<open>p\<close> of a child placeholder; \<open>Raw s\<close> is text that is not an
  expression. \<open>And\<close> and \<open>Or\<close> are the parenthesised chains built by appending one line
  ending in \<open>and\<close> (or \<open>or\<close>) per conjunct and slicing the last operator off.

  The classname of a forward reference and the code of a validator are text of the caller,
  pasted into the snippet as they are. When a later replacement of a placeholder hits such
  text, the snippet is no longer the expression the template stood for:
  \<open>Spliced c ps\<close> is the snippet \<open>c\<close> in which the pasted text now reads as the texts of \<open>ps\<close>
  one after the other (\<open>Raw s\<close> for text \<open>s\<close> that was left as it was).
\<close>

datatype code =
    Placeholder string
  | Raw string
  | IsInstance pexpr texpr
  | Not pexpr
  | LenEq pexpr nat
  | Equals pexpr name
  | IsValid string pexpr
  | And "code list"
  | Or "code list"
  | Spliced code "code list"

text \<open>
  The returned statement: \<open>PEP_CODE_CHECK_HINT_ROOT_PREFIX\<close>, the boolean expression, and
  \<open>PEP_CODE_CHECK_HINT_ROOT_SUFFIX\<close> formatted with \<open>random_int_if_any\<close> (here: whether the
  random integer is passed on).
\<close>

datatype stmt = RootCheck (check_expr: code) (random_int_if_any: bool)

section \<open>Placeholders\<close>

definition digit_char :: "nat \<Rightarrow> char" where
  "digit_char d = ''0123456789'' ! d"

fun str_nat :: "nat \<Rightarrow> string" where
  "str_nat n = (if n < 10 then [digit_char n] else str_nat (n div 10) @ [digit_char (n mod 10)])"

declare str_nat.simps [simp del]

text \<open>Python's \<open>str\<close> on an integer.\<close>

definition str_int :: "int \<Rightarrow> string" where
  "str_int i = (if i < 0 then CHR ''-'' # str_nat (nat (- i)) else str_nat (nat i))"

definition is_digit :: "char \<Rightarrow> bool" where
  "is_digit c = (c \<in> set ''0123456789'')"

definition PEP_CODE_HINT_CHILD_PLACEHOLDER_PREFIX :: string where
  "PEP_CODE_HINT_CHILD_PLACEHOLDER_PREFIX = ''@[''"

definition PEP_CODE_HINT_CHILD_PLACEHOLDER_SUFFIX :: string where
  "PEP_CODE_HINT_CHILD_PLACEHOLDER_SUFFIX = '')!''"

definition hint_child_placeholder_of :: "int \<Rightarrow> string" where
  "hint_child_placeholder_of i =
     PEP_CODE_HINT_CHILD_PLACEHOLDER_PREFIX @ str_int i @ PEP_CODE_HINT_CHILD_PLACEHOLDER_SUFFIX"

definition CODE_INDENT_1 :: string where
  "CODE_INDENT_1 = ''    ''"

definition CODE_INDENT_2 :: string where
  "CODE_INDENT_2 = ''        ''"

definition pith_root_expr :: pexpr where
  "pith_root_expr = PVar 0"

section \<open>State of one compilation\<close>

text \<open>
  The local variables of \<open>pep_code_check_hint\<close> that outlive one iteration. \<open>hints_meta\<close> is
  the fixed list of \<open>SIZE_BIG\<close> slots, each \<open>None\<close> until written; a slot holds the 4-tuple
  (hint, placeholder, pith expression, indentation).
\<close>

type_synonym hint_meta = "hint \<times> string \<times> pexpr \<times> string"

record state =
  hints_meta :: "nat \<rightharpoonup> hint_meta"
  hints_meta_index_curr :: nat
  hints_meta_index_last :: int
  hint_child_placeholder_id :: int
  pith_curr_assign_expr_name_counter :: nat
  func_wrapper_code :: code
  func_wrapper_locals :: scope
  hints_forwardref_class_basename :: "string list option"
  is_var_random_int_needed :: bool

text \<open>
  Python's indexing of a list of \<open>n\<close> items: a negative index counts from the end, and an
  index out of range raises \<open>IndexError\<close>.
\<close>

definition list_index :: "nat \<Rightarrow> int \<Rightarrow> nat option" where
  "list_index n i =
     (if 0 \<le> i \<and> i < int n then Some (nat i)
      else if i < 0 \<and> - int n \<le> i then Some (nat (i + int n))
      else None)"

text \<open>The closure \<open>_enqueue_hint_child\<close>; \<open>hint_child\<close> and \<open>indent_child\<close> are the
  variables of the enclosing function it reads.\<close>

definition enqueue_hint_child ::
  "config \<Rightarrow> hint \<Rightarrow> string \<Rightarrow> pexpr \<Rightarrow> state \<Rightarrow> exn + (string \<times> state)" where
  "enqueue_hint_child cfg hint_child indent_child pith_child_expr st =
     (let last = hints_meta_index_last st + 1;
          pid = hint_child_placeholder_id st + 1;
          hint_child_placeholder = hint_child_placeholder_of pid
      in case list_index (SIZE_BIG cfg) last of
           None \<Rightarrow> Inl IndexError
         | Some i \<Rightarrow> Inr (hint_child_placeholder,
             st\<lparr>hints_meta_index_last := last,
                hint_child_placeholder_id := pid,
                hints_meta := (hints_meta st)(i \<mapsto>
                  (hint_child, hint_child_placeholder, pith_child_expr, indent_child))\<rparr>))"

section \<open>The scope builder and text replacement\<close>

definition add_func_scope_type :: "cls \<Rightarrow> scope \<Rightarrow> name \<times> scope" where
  "add_func_scope_type c sc = (NType c, sc(NType c \<mapsto> OType c))"

fun classes_of :: "hint list \<Rightarrow> cls list option" where
  "classes_of [] = Some []"
| "classes_of (HClass c # hs) = map_option ((#) c) (classes_of hs)"
| "classes_of (_ # hs) = None"

text \<open>Modelled from the spec: the scope builder binds tuples of types; a collection
  holding an object that is not a class is outside its domain and raises.\<close>

definition add_func_scope_types :: "hint list \<Rightarrow> scope \<Rightarrow> exn + (name \<times> scope)" where
  "add_func_scope_types types sc =
     (case classes_of types of
        None \<Rightarrow> Inl (OtherException ''BeartypeDecorHintNonPepException'')
      | Some cs \<Rightarrow> Inr (NTypes cs, sc(NTypes cs \<mapsto> OTypes cs)))"

definition add_func_scope_attr :: "pyval \<Rightarrow> scope \<Rightarrow> name \<times> scope" where
  "add_func_scope_attr v sc = (NAttr v, sc(NAttr v \<mapsto> OAttr v))"

text \<open>Modelled from the spec: \<open>update_mapping\<close> of \<open>beartype._util.data.utildatadict\<close>
  (not part of the sources) merges the locals of a validator into the scope safely: a key
  already bound to another object raises.\<close>

fun update_mapping :: "scope \<Rightarrow> (string \<times> string) list \<Rightarrow> exn + scope" where
  "update_mapping sc [] = Inr sc"
| "update_mapping sc ((k, v) # kvs) =
     (case sc (NLocal k) of
        None \<Rightarrow> update_mapping (sc(NLocal k \<mapsto> OLocal v)) kvs
      | Some ob \<Rightarrow> if ob = OLocal v then update_mapping sc kvs
                   else Inl (OtherException ''_BeartypeUtilMappingException''))"

text \<open>
  The code is text, and a placeholder is searched for in all of it. The text of a snippet
  that no template fixes is that of a placeholder, the classname of a forward reference and
  the code of a validator: \<open>pasted_text\<close>. The templates contain neither \<open>@\<close> nor \<open>!\<close>, the
  names of the pith variables and of the scope are identifiers, and \<open>str.format\<close> leaves
  what is outside the braces of the code of a validator as it is: an occurrence of a
  placeholder in the code lies within the pasted text of one snippet.
\<close>

fun pasted_text :: "code \<Rightarrow> string" where
  "pasted_text (Placeholder p) = p"
| "pasted_text (Raw s) = s"
| "pasted_text (IsInstance e (TForwardrefUnqualified classname)) = classname"
| "pasted_text (IsInstance e (TTypistry classname)) = classname"
| "pasted_text (IsValid vcode e) = vcode"
| "pasted_text _ = []"

text \<open>\<open>old in text\<close>.\<close>

fun has_placeholder :: "string \<Rightarrow> code \<Rightarrow> bool" where
  "has_placeholder old (And cs) = (\<exists>c \<in> set cs. has_placeholder old c)"
| "has_placeholder old (Or cs) = (\<exists>c \<in> set cs. has_placeholder old c)"
| "has_placeholder old (Spliced c cs) = (\<exists>c \<in> set cs. has_placeholder old c)"
| "has_placeholder old c = sublist old (pasted_text c)"

text \<open>
  Python's \<open>text.replace(old, new)\<close> on pasted text, for a non-empty \<open>old\<close>: the
  occurrences of \<open>old\<close> are found from left to right without overlap, and what was
  inserted is not searched again. The result is the list of the pieces: the text before
  the first occurrence (\<open>acc\<close>, reversed, is what was read of it), \<open>new\<close>, the text up to the
  next occurrence, and so on.
\<close>

fun splice :: "string \<Rightarrow> code \<Rightarrow> string \<Rightarrow> string \<Rightarrow> code list" where
  "splice old new acc [] = [Raw (rev acc)]"
| "splice old new acc (x # xs) =
     (if old \<noteq> [] \<and> prefix old (x # xs)
      then Raw (rev acc) # new # splice old new [] (drop (length old) (x # xs))
      else splice old new (x # acc) xs)"

fun replace_placeholder :: "string \<Rightarrow> code \<Rightarrow> code \<Rightarrow> code" where
  "replace_placeholder old new (And cs) = And (map (replace_placeholder old new) cs)"
| "replace_placeholder old new (Or cs) = Or (map (replace_placeholder old new) cs)"
| "replace_placeholder old new (Spliced c cs) =
     Spliced c (map (replace_placeholder old new) cs)"
| "replace_placeholder old new c =
     (if c = Placeholder old then new
      else if sublist old (pasted_text c) then Spliced c (splice old new [] (pasted_text c))
      else c)"

text \<open>Modelled from the spec: \<open>replace_str_substrs\<close> of
  \<open>beartype._util.text.utiltextmunge\<close> (not part of the sources) replaces every occurrence
  of the placeholder \<open>old\<close> in \<open>text\<close> by \<open>new\<close>, and raises when there is none.\<close>

definition replace_str_substrs :: "code \<Rightarrow> string \<Rightarrow> code \<Rightarrow> exn + code" where
  "replace_str_substrs text old new =
     (if has_placeholder old text then Inr (replace_placeholder old new text)
      else Inl (OtherException ''_BeartypeUtilTextException''))"

text \<open>Adding to a Python set, kept as a list without duplicates in order of first
  insertion (the order in which Python iterates over a set is unspecified).\<close>

definition set_add :: "'a list \<Rightarrow> 'a \<Rightarrow> 'a list" where
  "set_add xs x = (if x \<in> set xs then xs else xs @ [x])"

section \<open>The expression synthesizer\<close>

text \<open>The reductions at the head of each iteration, tried in this order and applied once.\<close>

fun reduce_hint :: "hint \<Rightarrow> hint" where
  "reduce_hint HNone = HClass NoneType"
| "reduce_hint (HAnnotated h m ms) = (if \<not> isinstance_SubscriptedIs m then h else HAnnotated h m ms)"
| "reduce_hint (HIOGeneric p) = p"
| "reduce_hint (HNewType c) = HClass c"
| "reduce_hint h = h"

text \<open>The assignment expression localising the current pith: the triple is
  \<open>pith_curr_assign_expr\<close>, \<open>pith_curr_assigned_expr\<close> and the state with its counter.\<close>

definition pith_curr_assign :: "config \<Rightarrow> pexpr \<Rightarrow> state \<Rightarrow> pexpr \<times> pexpr \<times> state" where
  "pith_curr_assign cfg pith_curr_expr st =
     (if IS_PYTHON_AT_LEAST_3_8 cfg \<and> pith_curr_expr \<noteq> pith_root_expr then
        (let n = pith_curr_assign_expr_name_counter st + 1
         in (PAssign n pith_curr_expr, PVar n, st\<lparr>pith_curr_assign_expr_name_counter := n\<rparr>))
      else (pith_curr_expr, pith_curr_expr, st))"

subsection \<open>Unions\<close>

fun union_partition ::
  "config \<Rightarrow> hint list \<Rightarrow> hint list \<times> hint list \<Rightarrow> exn + (hint list \<times> hint list)" where
  "union_partition cfg [] (nonpep, pep) = Inr (nonpep, pep)"
| "union_partition cfg (hint_child # hs) (nonpep, pep) =
     (if hint_child \<in> HINTS_IGNORABLE_SHALLOW cfg then Inl AssertionError
      else if is_hint_pep hint_child then union_partition cfg hs (nonpep, set_add pep hint_child)
      else union_partition cfg hs (set_add nonpep hint_child, pep))"

fun union_childs_pep ::
  "config \<Rightarrow> string \<Rightarrow> bool \<Rightarrow> pexpr \<Rightarrow> pexpr \<Rightarrow> nat \<Rightarrow> hint list \<Rightarrow> state
     \<Rightarrow> exn + (code list \<times> state)" where
  "union_childs_pep cfg indent_child nonpep_any assign assigned hint_child_index [] st =
     Inr ([], st)"
| "union_childs_pep cfg indent_child nonpep_any assign assigned hint_child_index
       (hint_child # hs) st =
     (case enqueue_hint_child cfg hint_child indent_child
             (if nonpep_any \<or> 1 < hint_child_index then assigned else assign) st of
        Inl e \<Rightarrow> Inl e
      | Inr (p, st1) \<Rightarrow>
          (case union_childs_pep cfg indent_child nonpep_any assign assigned
                  (Suc hint_child_index) hs st1 of
             Inl e \<Rightarrow> Inl e
           | Inr (cs, st2) \<Rightarrow> Inr (Placeholder p # cs, st2)))"

definition code_check_union ::
  "config \<Rightarrow> hint list \<Rightarrow> pexpr \<Rightarrow> pexpr \<Rightarrow> pexpr \<Rightarrow> string \<Rightarrow> state \<Rightarrow> exn + (code \<times> state)"
  where
  "code_check_union cfg hint_childs pith_curr_expr assign assigned indent_child st =
     (if hint_childs = [] then Inl AssertionError
      else case union_partition cfg hint_childs ([], []) of
        Inl e \<Rightarrow> Inl e
      | Inr (hint_childs_nonpep, hint_childs_pep) \<Rightarrow>
          (case (if hint_childs_nonpep \<noteq> [] then
                   (case add_func_scope_types hint_childs_nonpep (func_wrapper_locals st) of
                      Inl e \<Rightarrow> Inl e
                    | Inr (nm, sc) \<Rightarrow>
                        Inr ([IsInstance (if hint_childs_pep \<noteq> [] then assign
                                          else pith_curr_expr) (TName nm)],
                             st\<lparr>func_wrapper_locals := sc\<rparr>))
                 else Inr ([], st)) of
             Inl e \<Rightarrow> Inl e
           | Inr (c0, st1) \<Rightarrow>
               (case union_childs_pep cfg indent_child (hint_childs_nonpep \<noteq> [])
                       assign assigned 0 hint_childs_pep st1 of
                  Inl e \<Rightarrow> Inl e
                | Inr (cs, st2) \<Rightarrow>
                    Inr (if c0 @ cs \<noteq> [] then Or (c0 @ cs) else Raw ''('', st2))))"

subsection \<open>Shallowly checked hints\<close>

definition code_check_shallow ::
  "config \<Rightarrow> hint \<Rightarrow> pexpr \<Rightarrow> state \<Rightarrow> exn + (code \<times> state)" where
  "code_check_shallow cfg hint_curr pith_curr_expr st =
     (if hint_curr = NoReturn then Inl BeartypeDecorHintPep484Exception
      else case get_hint_pep_stdlib_type cfg hint_curr of
        None \<Rightarrow> Inl BeartypeDecorHintPepException
      | Some c \<Rightarrow>
          (case add_func_scope_type c (func_wrapper_locals st) of
             (nm, sc) \<Rightarrow> Inr (IsInstance pith_curr_expr (TName nm),
                             st\<lparr>func_wrapper_locals := sc\<rparr>)))"

subsection \<open>Standard sequences and variadic tuples\<close>

definition code_check_sequence ::
  "config \<Rightarrow> hint \<Rightarrow> sign \<Rightarrow> hint list \<Rightarrow> pexpr \<Rightarrow> pexpr \<Rightarrow> pexpr \<Rightarrow> string \<Rightarrow> state
     \<Rightarrow> exn + (code \<times> state)" where
  "code_check_sequence cfg hint_curr hint_curr_sign hint_childs pith_curr_expr assign assigned
       indent_child st =
     (case get_hint_pep_stdlib_type cfg hint_curr of
        None \<Rightarrow> Inl BeartypeDecorHintPepException
      | Some c \<Rightarrow>
          (case add_func_scope_type c (func_wrapper_locals st) of
             (nm, sc) \<Rightarrow>
               if \<not> (length hint_childs = 1 \<or> hint_curr_sign \<in> HINT_PEP_SIGNS_TUPLE cfg)
               then Inl AssertionError
               else (case hint_childs of
                  [] \<Rightarrow> Inl IndexError
                | hint_child # _ \<Rightarrow>
                    if \<not> is_hint_ignorable cfg hint_child then
                      (case enqueue_hint_child cfg hint_child indent_child (PRandItem assigned)
                              (st\<lparr>func_wrapper_locals := sc,
                                  is_var_random_int_needed := True\<rparr>) of
                         Inl e \<Rightarrow> Inl e
                       | Inr (p, st1) \<Rightarrow>
                           Inr (And [IsInstance assign (TName nm),
                                     Or [Not assigned, Placeholder p]], st1))
                    else Inr (IsInstance pith_curr_expr (TName nm),
                              st\<lparr>func_wrapper_locals := sc\<rparr>))))"

subsection \<open>Fixed-length tuples\<close>

fun tuple_fixed_childs ::
  "config \<Rightarrow> string \<Rightarrow> pexpr \<Rightarrow> nat \<Rightarrow> hint list \<Rightarrow> state \<Rightarrow> exn + (code list \<times> state)" where
  "tuple_fixed_childs cfg indent_child assigned hint_child_index [] st = Inr ([], st)"
| "tuple_fixed_childs cfg indent_child assigned hint_child_index (hint_child # hs) st =
     (if is_hint_ignorable cfg hint_child
      then tuple_fixed_childs cfg indent_child assigned (Suc hint_child_index) hs st
      else case enqueue_hint_child cfg hint_child indent_child
                  (PItem assigned hint_child_index) st of
        Inl e \<Rightarrow> Inl e
      | Inr (p, st1) \<Rightarrow>
          (case tuple_fixed_childs cfg indent_child assigned (Suc hint_child_index) hs st1 of
             Inl e \<Rightarrow> Inl e
           | Inr (cs, st2) \<Rightarrow> Inr (Placeholder p # cs, st2)))"

text \<open>
  The prefix of this branch is formatted with \<open>indent_curr\<close> and \<open>pith_curr_assign_expr\<close>
  only, and the branch binds no origin type: the class tested is the builtin \<open>tuple\<close>.
\<close>

definition code_check_tuple_fixed ::
  "config \<Rightarrow> hint \<Rightarrow> sign \<Rightarrow> hint list \<Rightarrow> pexpr \<Rightarrow> pexpr \<Rightarrow> string \<Rightarrow> state
     \<Rightarrow> exn + (code \<times> state)" where
  "code_check_tuple_fixed cfg hint_curr hint_curr_sign hint_childs assign assigned
       indent_child st =
     (if \<not> (hint_curr_sign = Sign ''tuple'' \<or> hint_childs \<noteq> []) then Inl AssertionError
      else if \<not> (length hint_childs \<le> 1 \<or> hint_childs ! 1 \<noteq> HEllipsis) then Inl AssertionError
      else if is_hint_pep_tuple_empty hint_curr
      then Inr (And [IsInstance assign TTuple, Not assigned], st)
      else case tuple_fixed_childs cfg indent_child assigned 0 hint_childs st of
        Inl e \<Rightarrow> Inl e
      | Inr (cs, st1) \<Rightarrow>
          Inr (And (IsInstance assign TTuple # LenEq assigned (length hint_childs) # cs), st1))"

subsection \<open>Annotated metahints with validators\<close>

text \<open>Modelled from the spec: the templates \<open>PEP593_CODE_CHECK_HINT_SUBSCRIPTEDIS_*\<close> are
  not part of the sources; the snippet is true iff the pith satisfies the underlying hint
  and every validator evaluates to true on the pith.\<close>

fun annotated_metadata ::
  "pexpr \<Rightarrow> metadatum list \<Rightarrow> scope \<Rightarrow> exn + (code list \<times> scope)" where
  "annotated_metadata assigned [] sc = Inr ([], sc)"
| "annotated_metadata assigned (NotSubscriptedIs _ # ms) sc =
     Inl BeartypeDecorHintPep593Exception"
| "annotated_metadata assigned (SubscriptedIs vcode vlocals # ms) sc =
     (case update_mapping sc vlocals of
        Inl e \<Rightarrow> Inl e
      | Inr sc1 \<Rightarrow>
          (case annotated_metadata assigned ms sc1 of
             Inl e \<Rightarrow> Inl e
           | Inr (cs, sc2) \<Rightarrow> Inr (IsValid vcode assigned # cs, sc2)))"

definition code_check_annotated ::
  "config \<Rightarrow> hint \<Rightarrow> pexpr \<Rightarrow> pexpr \<Rightarrow> string \<Rightarrow> state \<Rightarrow> exn + (code \<times> state)" where
  "code_check_annotated cfg hint_curr assign assigned indent_child st =
     (case hint_curr of
        HAnnotated hint_child m ms \<Rightarrow>
          (case enqueue_hint_child cfg hint_child indent_child assign st of
             Inl e \<Rightarrow> Inl e
           | Inr (p, st1) \<Rightarrow>
               (case annotated_metadata assigned (m # ms) (func_wrapper_locals st1) of
                  Inl e \<Rightarrow> Inl e
                | Inr (cs, sc) \<Rightarrow>
                    Inr (And (Placeholder p # cs), st1\<lparr>func_wrapper_locals := sc\<rparr>)))
      | _ \<Rightarrow> Inl BeartypeDecorHintPep593Exception)"

subsection \<open>Forward references\<close>

definition code_check_forwardref ::
  "hint \<Rightarrow> pexpr \<Rightarrow> state \<Rightarrow> exn + (code \<times> state)" where
  "code_check_forwardref hint_curr pith_curr_expr st =
     (case hint_curr of
        HForwardRef hint_curr_forwardref_classname \<Rightarrow>
          if CHR ''.'' \<in> set hint_curr_forwardref_classname then
            Inr (IsInstance pith_curr_expr (TTypistry hint_curr_forwardref_classname),
                 st\<lparr>func_wrapper_locals := (func_wrapper_locals st)(NTypistry \<mapsto> OTypistry)\<rparr>)
          else
            Inr (IsInstance pith_curr_expr
                   (TForwardrefUnqualified hint_curr_forwardref_classname),
                 st\<lparr>hints_forwardref_class_basename :=
                      Some (set_add (case hints_forwardref_class_basename st of
                                       None \<Rightarrow> [] | Some names \<Rightarrow> names)
                                    hint_curr_forwardref_classname)\<rparr>)
      | _ \<Rightarrow> Inl BeartypeDecorHintPepException)"

subsection \<open>Generics\<close>

fun generic_childs ::
  "config \<Rightarrow> string \<Rightarrow> pexpr \<Rightarrow> (hint \<times> hint) list \<Rightarrow> state \<Rightarrow> exn + (code list \<times> state)"
  where
  "generic_childs cfg indent_child assigned [] st = Inr ([], st)"
| "generic_childs cfg indent_child assigned ((base, erased) # bs) st =
     (if is_type base then generic_childs cfg indent_child assigned bs st
      else
        (let hint_child =
               (if \<not> (is_hint_pep585_builtin cfg base \<and> is_hint_pep_typing cfg base)
                then erased else base)
         in if is_hint_ignorable cfg hint_child
            then generic_childs cfg indent_child assigned bs st
            else case enqueue_hint_child cfg hint_child indent_child assigned st of
              Inl e \<Rightarrow> Inl e
            | Inr (p, st1) \<Rightarrow>
                (case generic_childs cfg indent_child assigned bs st1 of
                   Inl e \<Rightarrow> Inl e
                 | Inr (cs, st2) \<Rightarrow> Inr (Placeholder p # cs, st2))))"

definition code_check_generic ::
  "config \<Rightarrow> hint \<Rightarrow> pexpr \<Rightarrow> pexpr \<Rightarrow> string \<Rightarrow> state \<Rightarrow> exn + (code \<times> state)" where
  "code_check_generic cfg hint_curr assign assigned indent_child st =
     (case hint_curr of
        HGeneric c bases \<Rightarrow>
          (case generic_childs cfg indent_child assigned bases st of
             Inl e \<Rightarrow> Inl e
           | Inr (cs, st1) \<Rightarrow>
               (case add_func_scope_type c (func_wrapper_locals st1) of
                  (nm, sc) \<Rightarrow> Inr (And (IsInstance assign (TName nm) # cs),
                                  st1\<lparr>func_wrapper_locals := sc\<rparr>)))
      | _ \<Rightarrow> Inl AssertionError)"

subsection \<open>Literals\<close>

text \<open>Modelled from the spec: the templates \<open>PEP586_CODE_CHECK_HINT_*\<close> are not part of
  the sources; the snippet is true iff the type of the pith is one of the types of the
  literal objects and the pith equals one of the literal objects.\<close>

fun literal_childs :: "pexpr \<Rightarrow> pyval list \<Rightarrow> scope \<Rightarrow> code list \<times> scope" where
  "literal_childs assigned [] sc = ([], sc)"
| "literal_childs assigned (hint_child # vs) sc =
     (case add_func_scope_attr hint_child sc of
        (nm, sc1) \<Rightarrow>
          (case literal_childs assigned vs sc1 of
             (cs, sc2) \<Rightarrow> (Equals assigned nm # cs, sc2)))"

definition code_check_literal ::
  "config \<Rightarrow> hint \<Rightarrow> pexpr \<Rightarrow> pexpr \<Rightarrow> state \<Rightarrow> exn + (code \<times> state)" where
  "code_check_literal cfg hint_curr assign assigned st =
     (if \<not> is_hint_pep586 cfg hint_curr then Inl BeartypeDecorHintPep586Exception
      else case hint_curr of
        HLiteral vs \<Rightarrow>
          (case add_func_scope_types (map HClass (remdups (map type_of vs)))
                  (func_wrapper_locals st) of
             Inl e \<Rightarrow> Inl e
           | Inr (nm, sc) \<Rightarrow>
               (case literal_childs assigned vs sc of
                  (cs, sc1) \<Rightarrow> Inr (And [IsInstance assign (TName nm), Or cs],
                                   st\<lparr>func_wrapper_locals := sc1\<rparr>)))
      | _ \<Rightarrow> Inl BeartypeDecorHintPep586Exception)"

subsection \<open>Dispatch on the sign\<close>

text \<open>
  The body of one iteration between fetching the metadata and the cleanup: the snippet
  \<open>func_curr_code\<close> for the hint, and the state after it. \<open>visit_hint_reduced\<close> is the part
  after the reductions. Assertions are enabled and raise \<open>AssertionError\<close>;
  \<open>warn_if_hint_pep_sign_deprecated\<close> only warns and is left out.
\<close>

definition visit_hint_reduced ::
  "config \<Rightarrow> hint \<Rightarrow> pexpr \<Rightarrow> string \<Rightarrow> state \<Rightarrow> exn + (code \<times> state)" where
  "visit_hint_reduced cfg hint_curr pith_curr_expr indent_curr st =
     (if is_hint_pep hint_curr then
        if is_hint_pep_unsupported cfg hint_curr
        then Inl BeartypeDecorHintPepUnsupportedException
        else if is_hint_ignorable cfg hint_curr then Inl AssertionError
        else
          (let hint_curr_sign = get_hint_pep_sign hint_curr in
           if is_hint_pep_sign_unsupported cfg hint_curr_sign
           then Inl BeartypeDecorHintPepUnsupportedException
           else
             (let hint_childs = get_hint_pep_args hint_curr;
                  indent_child = indent_curr @ CODE_INDENT_1
              in case pith_curr_assign cfg pith_curr_expr st of
                (assign, assigned, st1) \<Rightarrow>
                  if hint_curr_sign \<in> HINT_PEP484_SIGNS_UNION cfg then
                    code_check_union cfg hint_childs pith_curr_expr assign assigned
                      indent_child st1
                  else if is_hint_own_sign hint_curr \<or>
                       (hint_curr_sign \<in> HINT_PEP_SIGNS_TYPE_ORIGIN_STDLIB cfg \<and>
                        hint_curr_sign \<notin> HINT_PEP_SIGNS_SUPPORTED_DEEP cfg) then
                    code_check_shallow cfg hint_curr pith_curr_expr st1
                  else if hint_curr_sign \<in> HINT_PEP_SIGNS_SEQUENCE_STANDARD cfg \<or>
                       (hint_curr_sign \<in> HINT_PEP_SIGNS_TUPLE cfg \<and>
                        length hint_childs = 2 \<and> hint_childs ! 1 = HEllipsis) then
                    code_check_sequence cfg hint_curr hint_curr_sign hint_childs
                      pith_curr_expr assign assigned indent_child st1
                  else if hint_curr_sign \<in> HINT_PEP_SIGNS_TUPLE cfg then
                    code_check_tuple_fixed cfg hint_curr hint_curr_sign hint_childs
                      assign assigned indent_child st1
                  else if hint_curr_sign = SignAnnotated then
                    code_check_annotated cfg hint_curr assign assigned indent_child st1
                  else if hint_curr_sign = SignForwardRef then
                    code_check_forwardref hint_curr pith_curr_expr st1
                  else if hint_curr_sign = SignGeneric then
                    code_check_generic cfg hint_curr assign assigned indent_child st1
                  else if hint_curr_sign = SignLiteral then
                    code_check_literal cfg hint_curr assign assigned st1
                  else Inl BeartypeDecorHintPepUnsupportedException))
      else
        (case hint_curr of
           HClass c \<Rightarrow>
             (case add_func_scope_type c (func_wrapper_locals st) of
                (nm, sc) \<Rightarrow> Inr (IsInstance pith_curr_expr (TName nm),
                                st\<lparr>func_wrapper_locals := sc\<rparr>))
         | _ \<Rightarrow> Inl BeartypeDecorHintPepException))"

definition visit_hint ::
  "config \<Rightarrow> hint \<Rightarrow> pexpr \<Rightarrow> string \<Rightarrow> state \<Rightarrow> exn + (code \<times> state)" where
  "visit_hint cfg hint_curr pith_curr_expr indent_curr st =
     visit_hint_reduced cfg (reduce_hint hint_curr) pith_curr_expr indent_curr st"

section \<open>The breadth-first search\<close>

text \<open>One iteration of the \<open>while\<close> loop: fetch the metadata at \<open>hints_meta_index_curr\<close>,
  synthesize the snippet, replace the placeholder in the code, nullify the metadata and
  step the index.\<close>

definition hint_curr_meta :: "config \<Rightarrow> state \<Rightarrow> exn + hint_meta" where
  "hint_curr_meta cfg st =
     (case list_index (SIZE_BIG cfg) (int (hints_meta_index_curr st)) of
        None \<Rightarrow> Inl IndexError
      | Some i \<Rightarrow>
          (case hints_meta st i of
             None \<Rightarrow> Inl AssertionError
           | Some meta \<Rightarrow> Inr meta))"

definition bfs_iteration :: "config \<Rightarrow> state \<Rightarrow> exn + state" where
  "bfs_iteration cfg st =
     (case hint_curr_meta cfg st of
        Inl e \<Rightarrow> Inl e
      | Inr (hint_curr, hint_curr_placeholder, pith_curr_expr, indent_curr) \<Rightarrow>
          (case visit_hint cfg hint_curr pith_curr_expr indent_curr st of
             Inl e \<Rightarrow> Inl e
           | Inr (func_curr_code, st1) \<Rightarrow>
               (case replace_str_substrs (func_wrapper_code st1) hint_curr_placeholder
                       func_curr_code of
                  Inl e \<Rightarrow> Inl e
                | Inr text \<Rightarrow>
                    Inr (st1\<lparr>func_wrapper_code := text,
                             hints_meta :=
                               (hints_meta st1)(hints_meta_index_curr st := None),
                             hints_meta_index_curr := hints_meta_index_curr st + 1\<rparr>))))"

function bfs :: "config \<Rightarrow> state \<Rightarrow> exn + state" where
  "bfs cfg st =
     (if int (hints_meta_index_curr st) \<le> hints_meta_index_last st then
        (case bfs_iteration cfg st of
           Inl e \<Rightarrow> Inl e
         | Inr st' \<Rightarrow> bfs cfg st')
      else Inr st)"
  by pat_completeness auto
termination
  by (relation "measure (\<lambda>(cfg, st). SIZE_BIG cfg - hints_meta_index_curr st)")
     (auto simp: bfs_iteration_def hint_curr_meta_def list_index_def intro!: diff_less_mono2
        split: option.splits sum.splits if_splits)

declare bfs.simps [simp del]

definition initial_state :: state where
  "initial_state =
     \<lparr>hints_meta = Map.empty,
      hints_meta_index_curr = 0,
      hints_meta_index_last = - 1,
      hint_child_placeholder_id = - 1,
      pith_curr_assign_expr_name_counter = 0,
      func_wrapper_code = Raw [],
      func_wrapper_locals = Map.empty,
      hints_forwardref_class_basename = None,
      is_var_random_int_needed = False\<rparr>"

text \<open>The statements after the loop: the test that code was generated, and the
  3-tuple returned.\<close>

definition return_code :: "code \<Rightarrow> state \<Rightarrow> exn + (stmt \<times> scope \<times> string list)" where
  "return_code func_root_code st =
     (if func_wrapper_code st = func_root_code then Inl BeartypeDecorHintPepException
      else Inr (RootCheck (func_wrapper_code st) (is_var_random_int_needed st),
                (if is_var_random_int_needed st
                 then (func_wrapper_locals st)(NGetrandbits \<mapsto> OGetrandbits)
                 else func_wrapper_locals st),
                (case hints_forwardref_class_basename st of
                   None \<Rightarrow> [] | Some names \<Rightarrow> names)))"

definition start_state :: "config \<Rightarrow> hint \<Rightarrow> exn + (code \<times> state)" where
  "start_state cfg hint_root =
     (case enqueue_hint_child cfg hint_root CODE_INDENT_2 pith_root_expr initial_state of
        Inl e \<Rightarrow> Inl e
      | Inr (hint_child_placeholder, st) \<Rightarrow>
          Inr (Placeholder hint_child_placeholder,
               st\<lparr>func_wrapper_code := Placeholder hint_child_placeholder\<rparr>))"

definition pep_code_check_hint ::
  "config \<Rightarrow> hint \<Rightarrow> exn + (stmt \<times> scope \<times> string list)" where
  "pep_code_check_hint cfg hint_root =
     (case start_state cfg hint_root of
        Inl e \<Rightarrow> Inl e
      | Inr (func_root_code, st0) \<Rightarrow>
          (case bfs cfg st0 of
             Inl e \<Rightarrow> Inl e
           | Inr st \<Rightarrow> return_code func_root_code st))"

section \<open>Evaluating the generated code\<close>

text \<open>
  What the generated expression meets when the wrapper runs: the class hierarchy, which
  classes are sequences, the truth value of an object that is not a sequence, what each
  validator code computes, the classes forward references resolve to, and the value of
  \<open>__beartype_random_int\<close> for the call.
\<close>

record world =
  issubclass :: "cls \<Rightarrow> cls \<Rightarrow> bool"
  is_sequence_class :: "cls \<Rightarrow> bool"
  obj_truth :: "pyval \<Rightarrow> bool"
  is_valid :: "string \<Rightarrow> pyval \<Rightarrow> bool"
  typistry :: "string \<rightharpoonup> cls"
  forwardref_unqualified :: "string \<rightharpoonup> cls"
  random_int :: nat

definition isinstance :: "world \<Rightarrow> pyval \<Rightarrow> cls \<Rightarrow> bool" where
  "isinstance w v c = issubclass w (type_of v) c"

definition is_seq :: "world \<Rightarrow> pyval \<Rightarrow> bool" where
  "is_seq w v = is_sequence_class w (type_of v)"

definition truthy :: "world \<Rightarrow> pyval \<Rightarrow> bool" where
  "truthy w v = (if is_seq w v then items_of v \<noteq> [] else obj_truth w v)"

type_synonym env = "nat \<rightharpoonup> pyval"

text \<open>Evaluation returns \<open>None\<close> when Python raises (an unbound variable, \<open>len\<close> or
  indexing of an object that is no sequence, an index out of range, a modulus of zero).\<close>

fun eval_pith :: "world \<Rightarrow> env \<Rightarrow> pexpr \<Rightarrow> (pyval \<times> env) option" where
  "eval_pith w env (PVar n) = (case env n of None \<Rightarrow> None | Some v \<Rightarrow> Some (v, env))"
| "eval_pith w env (PAssign n e) =
     (case eval_pith w env e of
        None \<Rightarrow> None
      | Some (v, env1) \<Rightarrow> Some (v, env1(n \<mapsto> v)))"
| "eval_pith w env (PRandItem e) =
     (case eval_pith w env e of
        None \<Rightarrow> None
      | Some (s, env1) \<Rightarrow>
          (case eval_pith w env1 e of
             None \<Rightarrow> None
           | Some (l, env2) \<Rightarrow>
               if is_seq w s \<and> is_seq w l \<and> items_of l \<noteq> [] \<and>
                  random_int w mod length (items_of l) < length (items_of s)
               then Some (items_of s ! (random_int w mod length (items_of l)), env2)
               else None))"
| "eval_pith w env (PItem e i) =
     (case eval_pith w env e of
        None \<Rightarrow> None
      | Some (s, env1) \<Rightarrow>
          if is_seq w s \<and> i < length (items_of s) then Some (items_of s ! i, env1)
          else None)"

fun resolve_type :: "world \<Rightarrow> scope \<Rightarrow> texpr \<Rightarrow> cls list option" where
  "resolve_type w sc (TName nm) =
     (case sc nm of
        Some (OType c) \<Rightarrow> Some [c]
      | Some (OTypes cs) \<Rightarrow> Some cs
      | _ \<Rightarrow> None)"
| "resolve_type w sc (TTypistry classname) =
     (case sc NTypistry of
        Some OTypistry \<Rightarrow> map_option (\<lambda>c. [c]) (typistry w classname)
      | _ \<Rightarrow> None)"
| "resolve_type w sc (TForwardrefUnqualified classname) =
     map_option (\<lambda>c. [c]) (forwardref_unqualified w classname)"
| "resolve_type w sc TTuple = Some [''tuple'']"

text \<open>
  The value of a boolean snippet and the variables after it. \<open>phs\<close> gives a meaning to
  placeholders still in the text; in Python a placeholder is a syntax error, which is the
  meaning \<open>no_placeholders\<close>. A snippet with code spliced into its pasted text has no value.
\<close>

type_synonym placeholders = "string \<Rightarrow> env \<Rightarrow> (bool \<times> env) option"

definition no_placeholders :: placeholders where
  "no_placeholders p env = None"

fun eval_code :: "world \<Rightarrow> scope \<Rightarrow> placeholders \<Rightarrow> env \<Rightarrow> code \<Rightarrow> (bool \<times> env) option"
  and eval_and :: "world \<Rightarrow> scope \<Rightarrow> placeholders \<Rightarrow> env \<Rightarrow> code list \<Rightarrow> (bool \<times> env) option"
  and eval_or :: "world \<Rightarrow> scope \<Rightarrow> placeholders \<Rightarrow> env \<Rightarrow> code list \<Rightarrow> (bool \<times> env) option"
  where
  "eval_code w sc phs env (Placeholder p) = phs p env"
| "eval_code w sc phs env (Raw _) = None"
| "eval_code w sc phs env (IsInstance e t) =
     (case eval_pith w env e of
        None \<Rightarrow> None
      | Some (v, env1) \<Rightarrow>
          (case resolve_type w sc t of
             None \<Rightarrow> None
           | Some cs \<Rightarrow> Some (\<exists>c \<in> set cs. isinstance w v c, env1)))"
| "eval_code w sc phs env (Not e) =
     (case eval_pith w env e of
        None \<Rightarrow> None
      | Some (v, env1) \<Rightarrow> Some (\<not> truthy w v, env1))"
| "eval_code w sc phs env (LenEq e n) =
     (case eval_pith w env e of
        None \<Rightarrow> None
      | Some (v, env1) \<Rightarrow>
          if is_seq w v then Some (length (items_of v) = n, env1) else None)"
| "eval_code w sc phs env (Equals e nm) =
     (case eval_pith w env e of
        None \<Rightarrow> None
      | Some (v, env1) \<Rightarrow>
          (case sc nm of
             Some (OAttr lit) \<Rightarrow> Some (v = lit, env1)
           | _ \<Rightarrow> None))"
| "eval_code w sc phs env (IsValid vcode e) =
     (case eval_pith w env e of
        None \<Rightarrow> None
      | Some (v, env1) \<Rightarrow> Some (is_valid w vcode v, env1))"
| "eval_code w sc phs env (And cs) = eval_and w sc phs env cs"
| "eval_code w sc phs env (Or cs) = eval_or w sc phs env cs"
| "eval_code w sc phs env (Spliced _ _) = None"
| "eval_and w sc phs env [] = Some (True, env)"
| "eval_and w sc phs env (c # cs) =
     (case eval_code w sc phs env c of
        None \<Rightarrow> None
      | Some (b, env1) \<Rightarrow> if b then eval_and w sc phs env1 cs else Some (False, env1))"
| "eval_or w sc phs env [] = Some (False, env)"
| "eval_or w sc phs env (c # cs) =
     (case eval_code w sc phs env c of
        None \<Rightarrow> None
      | Some (b, env1) \<Rightarrow> if b then Some (True, env1) else eval_or w sc phs env1 cs)"

text \<open>
  Running the returned statement on the value \<open>v\<close> of the root pith: \<open>Some True\<close> when the
  check passes, \<open>Some False\<close> when it raises the violation, \<open>None\<close> when evaluating the
  expression itself raises.
\<close>

fun check_passes :: "world \<Rightarrow> scope \<Rightarrow> stmt \<Rightarrow> pyval \<Rightarrow> bool option" where
  "check_passes w sc (RootCheck c _) v =
     map_option fst (eval_code w sc no_placeholders (Map.empty(0 \<mapsto> v)) c)"

section \<open>The hints the search visits\<close>

text \<open>
  The hints fetched by the iterations of the loop, in order, as they are stored in
  \<open>hints_meta\<close> (before reduction); the last one is the hint at which the search raised, if
  it did. The recursion is that of \<open>bfs\<close>.
\<close>

function bfs_trace :: "config \<Rightarrow> state \<Rightarrow> hint list" where
  "bfs_trace cfg st =
     (if int (hints_meta_index_curr st) \<le> hints_meta_index_last st then
        (case hint_curr_meta cfg st of
           Inl e \<Rightarrow> []
         | Inr (hint_curr, _) \<Rightarrow>
             hint_curr # (case bfs_iteration cfg st of
                            Inl e \<Rightarrow> []
                          | Inr st' \<Rightarrow> bfs_trace cfg st'))
      else [])"
  by pat_completeness auto
termination
  by (relation "measure (\<lambda>(cfg, st). SIZE_BIG cfg - hints_meta_index_curr st)")
     (auto simp: bfs_iteration_def hint_curr_meta_def list_index_def intro!: diff_less_mono2
        split: option.splits sum.splits if_splits)

declare bfs_trace.simps [simp del]

definition hints_visited :: "config \<Rightarrow> hint \<Rightarrow> hint list" where
  "hints_visited cfg hint_root =
     (case start_state cfg hint_root of
        Inl e \<Rightarrow> []
      | Inr (func_root_code, st0) \<Rightarrow> bfs_trace cfg st0)"

section \<open>A concrete configuration\<close>

text \<open>A small instance of the tables, used to run the generator on concrete hints.\<close>

definition example_stdlib_type :: "hint \<Rightarrow> cls option" where
  "example_stdlib_type h =
     (if get_hint_pep_sign h = Sign ''List'' then Some ''list''
      else if get_hint_pep_sign h = Sign ''Tuple'' then Some ''tuple''
      else if get_hint_pep_sign h = Sign ''Dict'' then Some ''dict''
      else None)"

definition example_config :: config where
  "example_config =
     \<lparr>IS_PYTHON_AT_LEAST_3_8 = True,
      SIZE_BIG = 8,
      HINT_PEP484_SIGNS_UNION = {Sign ''Union''},
      HINT_PEP_SIGNS_SEQUENCE_STANDARD = {Sign ''List''},
      HINT_PEP_SIGNS_TUPLE = {Sign ''Tuple''},
      HINT_PEP_SIGNS_TYPE_ORIGIN_STDLIB = {Sign ''List'', Sign ''Tuple'', Sign ''Dict''},
      HINT_PEP_SIGNS_SUPPORTED_DEEP =
        {Sign ''Union'', Sign ''List'', Sign ''Tuple'', SignAnnotated, SignForwardRef,
         SignGeneric, SignLiteral},
      HINTS_IGNORABLE_SHALLOW = {HAttr (Sign ''Any''), HClass ''object''},
      is_hint_ignorable = (\<lambda>h. h = HAttr (Sign ''Any'') \<or> h = HClass ''object''),
      is_hint_pep_unsupported = (\<lambda>h. False),
      is_hint_pep_sign_unsupported = (\<lambda>s. s = Sign ''TypeVar''),
      is_hint_pep586 = (\<lambda>h. True),
      get_hint_pep_stdlib_type = example_stdlib_type,
      is_hint_pep585_builtin = (\<lambda>h. False),
      is_hint_pep_typing = is_hint_pep\<rparr>"

definition example_world :: world where
  "example_world =
     \<lparr>issubclass = (\<lambda>c k. c = k \<or> k = ''object''),
      is_sequence_class = (\<lambda>c. c = ''list'' \<or> c = ''tuple''),
      obj_truth = (\<lambda>v. True),
      is_valid = (\<lambda>vcode v. True),
      typistry = Map.empty,
      forwardref_unqualified = Map.empty,
      random_int = 5\<rparr>"

section \<open>Notions used to state the properties\<close>

text \<open>
  A hint (after reduction) whose sign the synthesizer does not recognize as supported:
  a PEP-compliant hint whose sign \<open>die_if_hint_pep_sign_unsupported\<close> rejects or for which
  no branch of the dispatch applies, or an object that is neither PEP-compliant nor a class.
\<close>

definition sign_unrecognized :: "config \<Rightarrow> hint \<Rightarrow> bool" where
  "sign_unrecognized cfg hint_curr =
     (if is_hint_pep hint_curr then
        (let s = get_hint_pep_sign hint_curr in
         is_hint_pep_sign_unsupported cfg s \<or>
         (s \<notin> HINT_PEP484_SIGNS_UNION cfg \<and> \<not> is_hint_own_sign hint_curr \<and>
          \<not> (s \<in> HINT_PEP_SIGNS_TYPE_ORIGIN_STDLIB cfg \<and>
             s \<notin> HINT_PEP_SIGNS_SUPPORTED_DEEP cfg) \<and>
          s \<notin> HINT_PEP_SIGNS_SEQUENCE_STANDARD cfg \<and> s \<notin> HINT_PEP_SIGNS_TUPLE cfg \<and>
          s \<noteq> SignAnnotated \<and> s \<noteq> SignForwardRef \<and> s \<noteq> SignGeneric \<and> s \<noteq> SignLiteral))
      else (case hint_curr of HClass _ \<Rightarrow> False | _ \<Rightarrow> True))"




section \<open>Notions used to reason about the queue\<close>

text \<open>The placeholders in a piece of code, from left to right.\<close>

fun placeholders_of :: "code \<Rightarrow> string list" where
  "placeholders_of (Placeholder p) = [p]"
| "placeholders_of (And cs) = concat (map placeholders_of cs)"
| "placeholders_of (Or cs) = concat (map placeholders_of cs)"
| "placeholders_of (Spliced c cs) = concat (map placeholders_of cs)"
| "placeholders_of _ = []"

text \<open>
  Pasted text is clean when the prefix of the placeholders does not occur in it, and a
  snippet when all its pasted text (that of its placeholders apart) is and no code was
  spliced into it. A hint is clean when the text the generator pastes from it is: the
  classname of a forward reference and the code of each validator of a metahint.
\<close>

definition text_clean :: "string \<Rightarrow> bool" where
  "text_clean s = (\<not> sublist PEP_CODE_HINT_CHILD_PLACEHOLDER_PREFIX s)"

fun code_clean :: "code \<Rightarrow> bool" where
  "code_clean (Placeholder p) = True"
| "code_clean (And cs) = list_all code_clean cs"
| "code_clean (Or cs) = list_all code_clean cs"
| "code_clean (Spliced c cs) = False"
| "code_clean c = text_clean (pasted_text c)"

fun metadatum_clean :: "metadatum \<Rightarrow> bool" where
  "metadatum_clean (SubscriptedIs vcode vlocals) = text_clean vcode"
| "metadatum_clean (NotSubscriptedIs _) = True"

fun hint_clean :: "hint \<Rightarrow> bool" where
  "hint_clean (HForwardRef classname) = text_clean classname"
| "hint_clean (HAnnotated h m ms) = list_all metadatum_clean (m # ms)"
| "hint_clean _ = True"

text \<open>The state after enqueueing a list of child hints, each with its pith expression and
  indentation: what the calls of \<open>_enqueue_hint_child\<close> made by one iteration amount to.\<close>

fun enqueue_items :: "state \<Rightarrow> (hint \<times> pexpr \<times> string) list \<Rightarrow> state" where
  "enqueue_items st [] = st"
| "enqueue_items st ((h, pe, ind) # xs) =
     enqueue_items
       (st\<lparr>hints_meta_index_last := hints_meta_index_last st + 1,
           hint_child_placeholder_id := hint_child_placeholder_id st + 1,
           hints_meta := (hints_meta st)(nat (hints_meta_index_last st + 1) \<mapsto>
             (h, hint_child_placeholder_of (hint_child_placeholder_id st + 1), pe, ind))\<rparr>) xs"

text \<open>The placeholders minted by \<open>n\<close> calls of \<open>_enqueue_hint_child\<close> when the counter is \<open>i\<close>.\<close>

definition new_placeholders :: "int \<Rightarrow> nat \<Rightarrow> string list" where
  "new_placeholders i n = map (\<lambda>j. hint_child_placeholder_of (i + 1 + int j)) [0..<n]"

text \<open>The variables of the state that the queue and the code buffer consist of.\<close>

definition queue_fields :: "state \<Rightarrow> (nat \<rightharpoonup> hint_meta) \<times> int \<times> int \<times> nat \<times> code" where
  "queue_fields st = (hints_meta st, hints_meta_index_last st, hint_child_placeholder_id st,
     hints_meta_index_curr st, func_wrapper_code st)"

text \<open>The pseudo-superclasses of a generic that get a check of their own.\<close>

definition generic_hint_childs :: "config \<Rightarrow> (hint \<times> hint) list \<Rightarrow> hint list" where
  "generic_hint_childs cfg bases =
     filter (\<lambda>c. \<not> is_hint_ignorable cfg c)
       (map (\<lambda>(base, erased).
               if \<not> (is_hint_pep585_builtin cfg base \<and> is_hint_pep_typing cfg base)
               then erased else base)
          (filter (\<lambda>(base, erased). \<not> is_type base) bases))"

text \<open>An iteration maps \<open>st\<close> to \<open>st'\<close> and yields the snippet \<open>c\<close>: it enqueues some items and the
  placeholders of the snippet are those of the items, in order.\<close>

definition shape :: "state \<Rightarrow> code \<Rightarrow> state \<Rightarrow> bool" where
  "shape st c st' = (\<exists>items. queue_fields st' = queue_fields (enqueue_items st items) \<and>
     placeholders_of c = new_placeholders (hint_child_placeholder_id st) (length items))"



text \<open>The invariant of the loop: the two counters agree, every metadata from the current index
  to the last holds the placeholder of its index, the code is clean and the placeholders in
  it are exactly those, each once.\<close>

definition queue_inv :: "state \<Rightarrow> bool" where
  "queue_inv st =
     (- 1 \<le> hints_meta_index_last st \<and>
      hint_child_placeholder_id st = hints_meta_index_last st \<and>
      int (hints_meta_index_curr st) \<le> hints_meta_index_last st + 1 \<and>
      (\<forall>k. hints_meta_index_curr st \<le> k \<and> int k \<le> hints_meta_index_last st \<longrightarrow>
         (\<exists>h pe ind. hints_meta st k = Some (h, hint_child_placeholder_of (int k), pe, ind))) \<and>
      code_clean (func_wrapper_code st) \<and>
      distinct (placeholders_of (func_wrapper_code st)) \<and>
      set (placeholders_of (func_wrapper_code st)) =
        hint_child_placeholder_of ` {int (hints_meta_index_curr st)..hints_meta_index_last st})"

section \<open>Notions used to reason about forward references\<close>

text \<open>The scope builder binds a name to the object it stands for: the object a name of
  the scope is bound to, a local of a validator apart, is determined by the name.\<close>

fun canonical :: "name \<Rightarrow> obj \<Rightarrow> bool" where
  "canonical (NType c) ob = (ob = OType c)"
| "canonical (NTypes cs) ob = (ob = OTypes cs)"
| "canonical (NAttr v) ob = (ob = OAttr v)"
| "canonical NTypistry ob = (ob = OTypistry)"
| "canonical NGetrandbits ob = (ob = OGetrandbits)"
| "canonical (NLocal s) ob = (\<exists>v. ob = OLocal v)"

definition scope_wf :: "scope \<Rightarrow> bool" where
  "scope_wf sc = (\<forall>nm ob. sc nm = Some ob \<longrightarrow> canonical nm ob)"

text \<open>The unqualified classnames collected so far, as a list.\<close>

definition forwardref_names :: "state \<Rightarrow> string list" where
  "forwardref_names st =
     (case hints_forwardref_class_basename st of None \<Rightarrow> [] | Some names \<Rightarrow> names)"

text \<open>The code contains an \<open>isinstance\<close> test against the type expression \<open>t\<close>, as the
  template wrote it (code spliced into a classname destroys the expression).\<close>

fun mentions :: "texpr \<Rightarrow> code \<Rightarrow> bool" where
  "mentions t (IsInstance e t') = (t' = t)"
| "mentions t (And cs) = (\<exists>c \<in> set cs. mentions t c)"
| "mentions t (Or cs) = (\<exists>c \<in> set cs. mentions t c)"
| "mentions t _ = False"

text \<open>What an iteration does to the scope, and the branches that leave the forward
  references and the counter of pith variables alone.\<close>

definition scope_grows :: "state \<Rightarrow> state \<Rightarrow> bool" where
  "scope_grows st st' =
     (scope_wf (func_wrapper_locals st) \<longrightarrow>
        scope_wf (func_wrapper_locals st') \<and> func_wrapper_locals st \<subseteq>\<^sub>m func_wrapper_locals st')"

definition side :: "state \<Rightarrow> state \<Rightarrow> bool" where
  "side st st' =
     (scope_grows st st' \<and>
      hints_forwardref_class_basename st' = hints_forwardref_class_basename st \<and>
      pith_curr_assign_expr_name_counter st' = pith_curr_assign_expr_name_counter st)"

text \<open>The tables send a forward reference to the branch of the shallowly checked hints
  instead of the branch for forward references.\<close>

definition forwardref_shallow :: "config \<Rightarrow> bool" where
  "forwardref_shallow cfg =
     (SignForwardRef \<in> HINT_PEP_SIGNS_TYPE_ORIGIN_STDLIB cfg \<and>
      SignForwardRef \<notin> HINT_PEP_SIGNS_SUPPORTED_DEEP cfg)"

text \<open>The classnames of the forward references among the hints visited from a state on.\<close>

definition forwardrefs_visited :: "config \<Rightarrow> state \<Rightarrow> string set" where
  "forwardrefs_visited cfg st = {n. HForwardRef n \<in> reduce_hint ` set (bfs_trace cfg st)}"

section \<open>Properties of placeholders\<close>

lemma lt10_cases: "d < 10 \<Longrightarrow> d = 0 \<or> d = 1 \<or> d = 2 \<or> d = 3 \<or> d = 4 \<or> d = 5 \<or> d = 6 \<or> d = 7 \<or> d = 8 \<or> d = (9::nat)"
  by arith

lemma digit_char_is_digit: "d < 10 \<Longrightarrow> is_digit (digit_char d)"
  using lt10_cases[of d] unfolding is_digit_def digit_char_def by auto

lemma digit_char_inj: "a < 10 \<Longrightarrow> b < 10 \<Longrightarrow> digit_char a = digit_char b \<Longrightarrow> a = b"
  using lt10_cases[of a] lt10_cases[of b] unfolding digit_char_def by auto

lemma str_nat_digits: "c \<in> set (str_nat n) \<Longrightarrow> is_digit c"
proof (induction n rule: str_nat.induct)
  case (1 n)
  show ?case
  proof (cases "n < 10")
    case True
    with 1(2) show ?thesis by (subst (asm) str_nat.simps) (simp add: digit_char_is_digit)
  next
    case False
    with 1 show ?thesis by (subst (asm) (2) str_nat.simps) (auto simp add: digit_char_is_digit)
  qed
qed

lemma str_nat_length: "length (str_nat n) = (if n < 10 then 1 else Suc (length (str_nat (n div 10))))"
  by (subst str_nat.simps) simp

lemma str_nat_ne: "str_nat n \<noteq> []"
  by (subst str_nat.simps) simp

lemma str_nat_inj: "str_nat n = str_nat m \<Longrightarrow> n = m"
proof (induction n arbitrary: m rule: str_nat.induct)
  case (1 n)
  have len: "length (str_nat n) = length (str_nat m)" using 1(2) by simp
  show ?case
  proof (cases "n < 10")
    case True
    note n = this
    show ?thesis
    proof (cases "m < 10")
      case True
      with n 1(2) show ?thesis
        by (subst (asm) str_nat.simps, subst (asm) (2) str_nat.simps) (simp add: digit_char_inj)
    next
      case False
      then show ?thesis using len n str_nat_ne[of "m div 10"]
        by (subst (asm) str_nat_length, subst (asm) (2) str_nat_length) simp
    qed
  next
    case False
    note n = this
    show ?thesis
    proof (cases "m < 10")
      case True
      then show ?thesis using len n str_nat_ne[of "n div 10"]
        by (subst (asm) str_nat_length, subst (asm) (2) str_nat_length) simp
    next
      case False
      have e: "str_nat (n div 10) @ [digit_char (n mod 10)] = str_nat (m div 10) @ [digit_char (m mod 10)]"
        using 1(2) n False by (subst (asm) str_nat.simps, subst (asm) (2) str_nat.simps) simp
      then have "str_nat (n div 10) = str_nat (m div 10)" and "digit_char (n mod 10) = digit_char (m mod 10)"
        by auto
      then have "n div 10 = m div 10" and "n mod 10 = m mod 10"
        using 1(1)[OF n] by (auto intro: digit_char_inj)
      then show ?thesis by (metis div_mult_mod_eq)
    qed
  qed
qed

lemma str_int_inj: "str_int i = str_int j \<Longrightarrow> i = j"
proof -
  assume a: "str_int i = str_int j"
  have nd: "\<not> is_digit (CHR ''-'')" by (simp add: is_digit_def)
  have hd_dig: "\<And>n. is_digit (hd (str_nat n))"
    using str_nat_digits str_nat_ne by (metis hd_in_set)
  show ?thesis
  proof (cases "i < 0"; cases "j < 0")
    assume "i < 0" "j < 0"
    with a have "str_nat (nat (- i)) = str_nat (nat (- j))" by (simp add: str_int_def)
    then have "nat (-i) = nat (-j)" by (rule str_nat_inj)
    with \<open>i < 0\<close> \<open>j < 0\<close> show ?thesis by simp
  next
    assume "i < 0" "\<not> j < 0"
    with a have "CHR ''-'' # str_nat (nat (- i)) = str_nat (nat j)" by (simp add: str_int_def)
    then have "hd (str_nat (nat j)) = CHR ''-''" by (metis list.sel(1))
    with hd_dig[of "nat j"] nd show ?thesis by simp
  next
    assume "\<not> i < 0" "j < 0"
    with a have "CHR ''-'' # str_nat (nat (- j)) = str_nat (nat i)" by (simp add: str_int_def)
    then have "hd (str_nat (nat i)) = CHR ''-''" by (metis list.sel(1))
    with hd_dig[of "nat i"] nd show ?thesis by simp
  next
    assume "\<not> i < 0" "\<not> j < 0"
    with a have "str_nat (nat i) = str_nat (nat j)" by (simp add: str_int_def)
    then have "nat i = nat j" by (rule str_nat_inj)
    with \<open>\<not> i < 0\<close> \<open>\<not> j < 0\<close> show ?thesis by simp
  qed
qed

lemma str_int_chars: "c \<in> set (str_int i) \<Longrightarrow> is_digit c \<or> c = CHR ''-''"
  by (auto simp: str_int_def dest: str_nat_digits split: if_splits)

lemma prefix_delim:
  assumes "prefix (xs @ '')!'') (ys @ '')!'')"
    and "\<forall>c\<in>set xs. c \<noteq> CHR '')''" and "\<forall>c\<in>set ys. c \<noteq> CHR '')''"
  shows "xs = ys"
  using assms
proof (induction xs arbitrary: ys)
  case Nil
  then show ?case by (cases ys) auto
next
  case (Cons x xs)
  then show ?case by (cases ys) auto
qed

lemma placeholder_unfold: "hint_child_placeholder_of i = CHR ''@'' # CHR ''['' # str_int i @ '')!''"
  by (simp add: hint_child_placeholder_of_def PEP_CODE_HINT_CHILD_PLACEHOLDER_PREFIX_def
      PEP_CODE_HINT_CHILD_PLACEHOLDER_SUFFIX_def)

lemma placeholder_sublist:
  assumes "sublist (hint_child_placeholder_of i) (hint_child_placeholder_of j)"
  shows "i = j"
proof -
  from assms obtain ps ss where e: "hint_child_placeholder_of j = ps @ hint_child_placeholder_of i @ ss"
    by (auto simp: sublist_def)
  have noat: "\<And>k. CHR ''@'' \<notin> set (CHR ''['' # str_int k @ '')!'')"
    using str_int_chars by (auto simp: is_digit_def)
  have nop: "\<And>k. \<forall>c\<in>set (str_int k). c \<noteq> CHR '')''"
    using str_int_chars by (auto simp: is_digit_def)
  have "ps = []"
  proof (cases ps)
    case Nil then show ?thesis .
  next
    case (Cons p ps')
    with e have "CHR ''['' # str_int j @ '')!'' = ps' @ hint_child_placeholder_of i @ ss"
      by (simp add: placeholder_unfold)
    then have "CHR ''@'' \<in> set (CHR ''['' # str_int j @ '')!'')"
      by (simp add: placeholder_unfold)
    with noat show ?thesis by blast
  qed
  with e have "str_int j @ '')!'' = (str_int i @ '')!'') @ ss" by (simp add: placeholder_unfold)
  then have "prefix (str_int i @ '')!'') (str_int j @ '')!'')" by (metis prefixI)
  then have "str_int i = str_int j" using nop by (intro prefix_delim) auto
  then show ?thesis by (rule str_int_inj)
qed

lemma placeholder_inj: "hint_child_placeholder_of i = hint_child_placeholder_of j \<Longrightarrow> i = j"
  using placeholder_sublist[of i j] by simp

text \<open>
  Claim C6. Every call of \<open>_enqueue_hint_child\<close> that returns increments the placeholder
  counter (and the index of the last metadata) by one and returns the placeholder made of
  the prefix \<open>@[\<close>, the decimal text of the new counter and the suffix \<open>)!\<close>; and the
  placeholder of an index is never a substring of the placeholder of another index.
\<close>

theorem enqueue_hint_child_placeholder:
  "(enqueue_hint_child cfg hint_child indent_child pith_child_expr st = Inr (p, st') \<longrightarrow>
      hint_child_placeholder_id st < hint_child_placeholder_id st' \<and>
      hint_child_placeholder_id st' = hint_child_placeholder_id st + 1 \<and>
      hints_meta_index_last st' = hints_meta_index_last st + 1 \<and>
      p = ''@['' @ str_int (hint_child_placeholder_id st') @ '')!'') \<and>
   (i \<noteq> j \<longrightarrow> \<not> sublist (hint_child_placeholder_of i) (hint_child_placeholder_of j))"
  using placeholder_sublist[of i j]
  by (auto simp: enqueue_hint_child_def Let_def placeholder_unfold split: option.splits)

theorem enqueue_hint_child_placeholder_witness:
  "enqueue_hint_child example_config (HClass ''int'') CODE_INDENT_2 pith_root_expr initial_state
     = Inr (''@[0)!'', initial_state\<lparr>hints_meta_index_last := 0, hint_child_placeholder_id := 0,
          hints_meta := Map.empty(0 \<mapsto> (HClass ''int'', ''@[0)!'', pith_root_expr, CODE_INDENT_2))\<rparr>) \<and>
   hint_child_placeholder_of 1 = ''@[1)!'' \<and> hint_child_placeholder_of 10 = ''@[10)!'' \<and>
   \<not> sublist ''@[1)!'' ''@[10)!''"
proof -
  have e: "enqueue_hint_child example_config (HClass ''int'') CODE_INDENT_2 pith_root_expr initial_state
     = Inr (''@[0)!'', initial_state\<lparr>hints_meta_index_last := 0, hint_child_placeholder_id := 0,
          hints_meta := Map.empty(0 \<mapsto> (HClass ''int'', ''@[0)!'', pith_root_expr, CODE_INDENT_2))\<rparr>)"
    by (simp add: enqueue_hint_child_def example_config_def initial_state_def list_index_def
        placeholder_unfold str_int_def str_nat.simps digit_char_def Let_def)
  have p1: "hint_child_placeholder_of 1 = ''@[1)!''"
    by (simp add: placeholder_unfold str_int_def str_nat.simps digit_char_def)
  have p10: "hint_child_placeholder_of 10 = ''@[10)!''"
    by (simp add: placeholder_unfold str_int_def str_nat.simps digit_char_def)
  from enqueue_hint_child_placeholder[of example_config "HClass ''int''" CODE_INDENT_2 pith_root_expr
      initial_state "''@[0)!''" _ 1 10]
  have "\<not> sublist (hint_child_placeholder_of 1) (hint_child_placeholder_of 10)" by simp
  with e p1 p10 show ?thesis by simp
qed



section \<open>Hints at which the search raises\<close>


lemma bfs_trace_unfold:
  assumes "h \<in> set (bfs_trace cfg st)"
  shows "int (hints_meta_index_curr st) \<le> hints_meta_index_last st \<and>
         (\<exists>h0 ph pe ind. hint_curr_meta cfg st = Inr (h0, ph, pe, ind) \<and>
            (h = h0 \<or> (\<exists>st'. bfs_iteration cfg st = Inr st' \<and> h \<in> set (bfs_trace cfg st'))))"
proof (cases "int (hints_meta_index_curr st) \<le> hints_meta_index_last st")
  case False
  with assms show ?thesis by (subst (asm) bfs_trace.simps) simp
next
  case True
  show ?thesis
  proof (cases "hint_curr_meta cfg st")
    case (Inl e)
    with assms True show ?thesis by (subst (asm) bfs_trace.simps) simp
  next
    case (Inr m)
    obtain h0 ph pe ind where m: "m = (h0, ph, pe, ind)" by (cases m) auto
    show ?thesis
    proof (cases "bfs_iteration cfg st")
      case (Inl e)
      with assms True Inr m show ?thesis by (subst (asm) bfs_trace.simps) simp
    next
      case it: (Inr st')
      with assms True Inr m show ?thesis by (subst (asm) bfs_trace.simps) auto
    qed
  qed
qed

lemma bfs_trace_step:
  assumes "int (hints_meta_index_curr st) \<le> hints_meta_index_last st"
    and "hint_curr_meta cfg st = Inr (h, ph, pe, ind)"
    and "bfs_iteration cfg st = Inr st1"
  shows "bfs_trace cfg st = h # bfs_trace cfg st1"
  using assms by (subst bfs_trace.simps) simp




lemma bfs_trace_raises:
  "h \<in> set (bfs_trace cfg st) \<Longrightarrow>
   (\<And>p i st. \<exists>e\<in>E. visit_hint cfg h p i st = Inl e) \<Longrightarrow>
   \<exists>e\<in>E. bfs cfg st = Inl e"
proof (induction cfg st rule: bfs.induct)
  case (1 cfg st)
  note raises = "1.prems"(2)
  from bfs_trace_unfold[OF "1.prems"(1)] obtain h0 ph pe ind where
    le: "int (hints_meta_index_curr st) \<le> hints_meta_index_last st"
    and meta: "hint_curr_meta cfg st = Inr (h0, ph, pe, ind)"
    and disj: "h = h0 \<or> (\<exists>st'. bfs_iteration cfg st = Inr st' \<and> h \<in> set (bfs_trace cfg st'))"
    by auto
  from disj show ?case
  proof
    assume "h = h0"
    with raises[of pe ind st] obtain e where e: "e \<in> E" "visit_hint cfg h0 pe ind st = Inl e"
      by auto
    with meta have "bfs_iteration cfg st = Inl e" by (simp add: bfs_iteration_def)
    with le e(1) show ?thesis by (subst bfs.simps) auto
  next
    assume "\<exists>st'. bfs_iteration cfg st = Inr st' \<and> h \<in> set (bfs_trace cfg st')"
    then obtain st' where it: "bfs_iteration cfg st = Inr st'" and h: "h \<in> set (bfs_trace cfg st')"
      by auto
    from "1.IH"[OF le it h raises] obtain e where "e \<in> E" "bfs cfg st' = Inl e" by auto
    with le it show ?thesis by (subst bfs.simps) auto
  qed
qed

lemma hints_visited_raises:
  assumes "h \<in> set (hints_visited cfg hint_root)"
    and "\<And>p i st. \<exists>e\<in>E. visit_hint cfg h p i st = Inl e"
  shows "\<exists>e\<in>E. pep_code_check_hint cfg hint_root = Inl e"
proof -
  from assms(1) obtain c st0 where s: "start_state cfg hint_root = Inr (c, st0)"
    and h: "h \<in> set (bfs_trace cfg st0)"
    by (cases "start_state cfg hint_root") (auto simp: hints_visited_def)
  from bfs_trace_raises[OF h assms(2)] obtain e where "e \<in> E" "bfs cfg st0 = Inl e" by auto
  with s show ?thesis by (auto simp: pep_code_check_hint_def)
qed

lemma visit_hint_NoReturn:
  assumes "reduce_hint h = NoReturn"
    and "\<not> is_hint_pep_unsupported cfg NoReturn"
    and "\<not> is_hint_ignorable cfg NoReturn"
    and "\<not> is_hint_pep_sign_unsupported cfg (Sign ''NoReturn'')"
    and "Sign ''NoReturn'' \<notin> HINT_PEP484_SIGNS_UNION cfg"
  shows "visit_hint cfg h p i st = Inl BeartypeDecorHintPep484Exception"
  using assms
  by (simp add: visit_hint_def visit_hint_reduced_def NoReturn_def Let_def
      code_check_shallow_def split: prod.splits)

text \<open>
  Claim C10. Whenever the search visits a hint that is (after reduction) \<open>typing.NoReturn\<close>,
  \<open>pep_code_check_hint\<close> raises \<open>BeartypeDecorHintPep484Exception\<close> and emits no code. The
  tables are assumed to let \<open>NoReturn\<close> through the checks that precede the dispatch.
\<close>

theorem nested_NoReturn_raises:
  assumes "h \<in> set (hints_visited cfg hint_root)"
    and "reduce_hint h = NoReturn"
    and "\<not> is_hint_pep_unsupported cfg NoReturn"
    and "\<not> is_hint_ignorable cfg NoReturn"
    and "\<not> is_hint_pep_sign_unsupported cfg (Sign ''NoReturn'')"
    and "Sign ''NoReturn'' \<notin> HINT_PEP484_SIGNS_UNION cfg"
  shows "pep_code_check_hint cfg hint_root = Inl BeartypeDecorHintPep484Exception"
  using hints_visited_raises[OF assms(1), of "{BeartypeDecorHintPep484Exception}"]
    visit_hint_NoReturn[OF assms(2-6)]
  by auto

theorem nested_NoReturn_raises_witness:
  "NoReturn \<in> set (hints_visited example_config (HSub (Sign ''List'') [NoReturn])) \<and>
   reduce_hint NoReturn = NoReturn \<and>
   \<not> is_hint_pep_unsupported example_config NoReturn \<and>
   \<not> is_hint_ignorable example_config NoReturn \<and>
   \<not> is_hint_pep_sign_unsupported example_config (Sign ''NoReturn'') \<and>
   Sign ''NoReturn'' \<notin> HINT_PEP484_SIGNS_UNION example_config \<and>
   pep_code_check_hint example_config (HSub (Sign ''List'') [NoReturn])
     = Inl BeartypeDecorHintPep484Exception"
proof -
  have v: "NoReturn \<in> set (hints_visited example_config (HSub (Sign ''List'') [NoReturn]))"
    by code_simp
  have r: "reduce_hint NoReturn = NoReturn" by (simp add: NoReturn_def)
  have c: "\<not> is_hint_pep_unsupported example_config NoReturn"
    "\<not> is_hint_ignorable example_config NoReturn"
    "\<not> is_hint_pep_sign_unsupported example_config (Sign ''NoReturn'')"
    "Sign ''NoReturn'' \<notin> HINT_PEP484_SIGNS_UNION example_config"
    by (simp_all add: example_config_def NoReturn_def)
  from nested_NoReturn_raises[OF v r c] v r c show ?thesis by simp
qed


lemma visit_hint_unrecognized:
  assumes "sign_unrecognized cfg (reduce_hint h)"
    and "\<not> is_hint_ignorable cfg (reduce_hint h)"
  shows "visit_hint cfg h p i st = Inl BeartypeDecorHintPepUnsupportedException \<or>
         visit_hint cfg h p i st = Inl BeartypeDecorHintPepException"
proof (cases "is_hint_pep (reduce_hint h)")
  case True
  with assms show ?thesis
    by (auto simp: visit_hint_def visit_hint_reduced_def sign_unrecognized_def Let_def
        split: prod.splits)
next
  case False
  with assms show ?thesis
    by (auto simp: visit_hint_def visit_hint_reduced_def sign_unrecognized_def
        split: hint.splits)
qed

text \<open>
  Claim C4. Whenever the search visits a hint whose sign the synthesizer does not
  recognize as supported, \<open>pep_code_check_hint\<close> raises
  \<open>BeartypeDecorHintPepUnsupportedException\<close> or \<open>BeartypeDecorHintPepException\<close>: the
  result is an exception, so no code, scope or forward-reference names are returned. The
  hint is assumed unignorable, which is the invariant the generator asserts of every hint
  it visits.
\<close>

theorem unrecognized_sign_raises:
  assumes "h \<in> set (hints_visited cfg hint_root)"
    and "sign_unrecognized cfg (reduce_hint h)"
    and "\<not> is_hint_ignorable cfg (reduce_hint h)"
  shows "pep_code_check_hint cfg hint_root = Inl BeartypeDecorHintPepUnsupportedException \<or>
         pep_code_check_hint cfg hint_root = Inl BeartypeDecorHintPepException"
  using hints_visited_raises[OF assms(1),
      of "{BeartypeDecorHintPepUnsupportedException, BeartypeDecorHintPepException}"]
    visit_hint_unrecognized[OF assms(2,3)]
  by auto

theorem unrecognized_sign_raises_witness:
  "HSub (Sign ''TypeVar'') [] \<in>
     set (hints_visited example_config (HSub (Sign ''List'') [HSub (Sign ''TypeVar'') []])) \<and>
   sign_unrecognized example_config (reduce_hint (HSub (Sign ''TypeVar'') [])) \<and>
   \<not> is_hint_ignorable example_config (reduce_hint (HSub (Sign ''TypeVar'') [])) \<and>
   (pep_code_check_hint example_config (HSub (Sign ''List'') [HSub (Sign ''TypeVar'') []])
      = Inl BeartypeDecorHintPepUnsupportedException \<or>
    pep_code_check_hint example_config (HSub (Sign ''List'') [HSub (Sign ''TypeVar'') []])
      = Inl BeartypeDecorHintPepException)"
proof -
  have v: "HSub (Sign ''TypeVar'') [] \<in>
     set (hints_visited example_config (HSub (Sign ''List'') [HSub (Sign ''TypeVar'') []]))"
    by code_simp
  have u: "sign_unrecognized example_config (reduce_hint (HSub (Sign ''TypeVar'') []))"
    by (simp add: sign_unrecognized_def example_config_def)
  have g: "\<not> is_hint_ignorable example_config (reduce_hint (HSub (Sign ''TypeVar'') []))"
    by (simp add: example_config_def)
  from unrecognized_sign_raises[OF v u g] v u g show ?thesis by simp
qed

section \<open>Annotated metahints\<close>






lemma code_check_union_nil: "code_check_union cfg [] pe a b ind st = Inl AssertionError"
  by (simp add: code_check_union_def)


lemma code_check_sequence_nil:
  "code_check_sequence cfg h s [] pe a b ind st = Inl e \<Longrightarrow>
     e = BeartypeDecorHintPepException \<or> e = AssertionError \<or> e = IndexError"
  by (auto simp: code_check_sequence_def add_func_scope_type_def split: option.splits if_splits)

lemma code_check_tuple_fixed_nil:
  "s \<noteq> Sign ''tuple'' \<Longrightarrow> code_check_tuple_fixed cfg h s [] a b ind st = Inl AssertionError"
  by (simp add: code_check_tuple_fixed_def)



















section \<open>The queue and the placeholders in the code\<close>

lemma new_placeholders_0 [simp]: "new_placeholders i 0 = []"
  by (simp add: new_placeholders_def)

lemma new_placeholders_Suc:
  "new_placeholders i (Suc n) = hint_child_placeholder_of (i + 1) # new_placeholders (i + 1) n"
proof -
  have "[0..<Suc n] = 0 # map Suc [0..<n]" by (simp add: upt_conv_Cons map_Suc_upt del: upt_Suc)
  then show ?thesis by (simp add: new_placeholders_def comp_def add.assoc del: upt_Suc)
qed

lemma enqueue_as_items:
  assumes "- 1 \<le> hints_meta_index_last st"
    and "enqueue_hint_child cfg h ind pe st = Inr (p, st')"
  shows "p = hint_child_placeholder_of (hint_child_placeholder_id st + 1) \<and>
         st' = enqueue_items st [(h, pe, ind)] \<and>
         hints_meta_index_last st + 1 < int (SIZE_BIG cfg)"
  using assms
  by (auto simp: enqueue_hint_child_def Let_def list_index_def split: option.splits if_splits)

lemma enqueue_items_fields [simp]:
  "hints_meta_index_last (enqueue_items st xs) = hints_meta_index_last st + int (length xs)"
  "hint_child_placeholder_id (enqueue_items st xs) = hint_child_placeholder_id st + int (length xs)"
  "hints_meta_index_curr (enqueue_items st xs) = hints_meta_index_curr st"
  "pith_curr_assign_expr_name_counter (enqueue_items st xs) = pith_curr_assign_expr_name_counter st"
  "func_wrapper_code (enqueue_items st xs) = func_wrapper_code st"
  "func_wrapper_locals (enqueue_items st xs) = func_wrapper_locals st"
  "hints_forwardref_class_basename (enqueue_items st xs) = hints_forwardref_class_basename st"
  "is_var_random_int_needed (enqueue_items st xs) = is_var_random_int_needed st"
  by (induction st xs rule: enqueue_items.induct; simp)+

lemma enqueue_items_append:
  "enqueue_items st (xs @ ys) = enqueue_items (enqueue_items st xs) ys"
  by (induction st xs rule: enqueue_items.induct) auto

lemma enqueue_items_queue_fields:
  "queue_fields st = queue_fields st0 \<Longrightarrow>
   queue_fields (enqueue_items st xs) = queue_fields (enqueue_items st0 xs)"
proof (induction st xs arbitrary: st0 rule: enqueue_items.induct)
  case (1 st)
  then show ?case by simp
next
  case (2 st h pe ind xs)
  show ?case
    unfolding enqueue_items.simps
    by (rule "2.IH") (use "2.prems" in \<open>simp add: queue_fields_def\<close>)
qed

lemma union_childs_pep_items:
  assumes "- 1 \<le> hints_meta_index_last st"
    and "union_childs_pep cfg ind nonpep a b idx hs st = Inr (cs, st')"
  shows "st' = enqueue_items st
           (map (\<lambda>(i, c). (c, if nonpep \<or> 1 < i then b else a, ind)) (enumerate idx hs)) \<and>
         cs = map Placeholder (new_placeholders (hint_child_placeholder_id st) (length hs))"
  using assms
proof (induction hs arbitrary: st idx cs)
  case Nil
  then show ?case by simp
next
  case (Cons c hs)
  let ?pe = "if nonpep \<or> 1 < idx then b else a"
  from Cons.prems(2) obtain p st1 cs1 where
    e: "enqueue_hint_child cfg c ind ?pe st = Inr (p, st1)"
    and r: "union_childs_pep cfg ind nonpep a b (Suc idx) hs st1 = Inr (cs1, st')"
    and cs: "cs = Placeholder p # cs1"
    by (auto split: sum.splits)
  from enqueue_as_items[OF Cons.prems(1) e] have
    p: "p = hint_child_placeholder_of (hint_child_placeholder_id st + 1)"
    and st1: "st1 = enqueue_items st [(c, ?pe, ind)]" by auto
  have l1: "- 1 \<le> hints_meta_index_last st1" using Cons.prems(1) st1 by simp
  from Cons.IH[OF l1 r] st1 p cs show ?case
    by (simp add: new_placeholders_Suc)
qed

lemma tuple_fixed_childs_items:
  assumes "- 1 \<le> hints_meta_index_last st"
    and "tuple_fixed_childs cfg ind b idx hs st = Inr (cs, st')"
  shows "st' = enqueue_items st
           (map (\<lambda>(i, c). (c, PItem b i, ind))
              (filter (\<lambda>(i, c). \<not> is_hint_ignorable cfg c) (enumerate idx hs))) \<and>
         cs = map Placeholder (new_placeholders (hint_child_placeholder_id st)
                (length (filter (\<lambda>c. \<not> is_hint_ignorable cfg c) hs)))"
  using assms
proof (induction hs arbitrary: st idx cs)
  case Nil
  then show ?case by simp
next
  case (Cons c hs)
  show ?case
  proof (cases "is_hint_ignorable cfg c")
    case True
    with Cons.prems(2) have "tuple_fixed_childs cfg ind b (Suc idx) hs st = Inr (cs, st')"
      by simp
    from Cons.IH[OF Cons.prems(1) this] True show ?thesis by simp
  next
    case False
    with Cons.prems(2) obtain p st1 cs1 where
      e: "enqueue_hint_child cfg c ind (PItem b idx) st = Inr (p, st1)"
      and r: "tuple_fixed_childs cfg ind b (Suc idx) hs st1 = Inr (cs1, st')"
      and cs: "cs = Placeholder p # cs1"
      by (auto split: sum.splits)
    from enqueue_as_items[OF Cons.prems(1) e] have
      p: "p = hint_child_placeholder_of (hint_child_placeholder_id st + 1)"
      and st1: "st1 = enqueue_items st [(c, PItem b idx, ind)]" by auto
    have l1: "- 1 \<le> hints_meta_index_last st1" using Cons.prems(1) st1 by simp
    from Cons.IH[OF l1 r] st1 p cs False show ?thesis
      by (simp add: new_placeholders_Suc)
  qed
qed

lemma generic_childs_items:
  assumes "- 1 \<le> hints_meta_index_last st"
    and "generic_childs cfg ind b bases st = Inr (cs, st')"
  shows "st' = enqueue_items st (map (\<lambda>c. (c, b, ind)) (generic_hint_childs cfg bases)) \<and>
         cs = map Placeholder (new_placeholders (hint_child_placeholder_id st)
                (length (generic_hint_childs cfg bases)))"
  using assms
proof (induction bases arbitrary: st cs)
  case Nil
  then show ?case by (simp add: generic_hint_childs_def)
next
  case (Cons be bases)
  obtain base erased where be: "be = (base, erased)" by (cases be) auto
  let ?c = "if \<not> (is_hint_pep585_builtin cfg base \<and> is_hint_pep_typing cfg base)
               then erased else base"
  show ?case
  proof (cases "is_type base \<or> is_hint_ignorable cfg ?c")
    case True
    with Cons.prems(2) be have "generic_childs cfg ind b bases st = Inr (cs, st')"
      by (auto simp: Let_def split: if_splits)
    from Cons.IH[OF Cons.prems(1) this] True be show ?thesis
      by (auto simp: generic_hint_childs_def)
  next
    case False
    with Cons.prems(2) be obtain p st1 cs1 where
      e: "enqueue_hint_child cfg ?c ind b st = Inr (p, st1)"
      and r: "generic_childs cfg ind b bases st1 = Inr (cs1, st')"
      and cs: "cs = Placeholder p # cs1"
      by (auto simp: Let_def split: sum.splits if_splits)
    from enqueue_as_items[OF Cons.prems(1) e] have
      p: "p = hint_child_placeholder_of (hint_child_placeholder_id st + 1)"
      and st1: "st1 = enqueue_items st [(?c, b, ind)]" by auto
    have l1: "- 1 \<le> hints_meta_index_last st1" using Cons.prems(1) st1 by simp
    from Cons.IH[OF l1 r] st1 p cs False be show ?thesis
      by (simp add: new_placeholders_Suc generic_hint_childs_def)
  qed
qed

lemma queue_fields_upd [simp]:
  "queue_fields (st\<lparr>func_wrapper_locals := sc\<rparr>) = queue_fields st"
  "queue_fields (st\<lparr>is_var_random_int_needed := b\<rparr>) = queue_fields st"
  "queue_fields (st\<lparr>hints_forwardref_class_basename := ns\<rparr>) = queue_fields st"
  "queue_fields (st\<lparr>pith_curr_assign_expr_name_counter := n\<rparr>) = queue_fields st"
  by (simp_all add: queue_fields_def)

lemma shape_nil: "queue_fields st' = queue_fields st \<Longrightarrow> placeholders_of c = [] \<Longrightarrow> shape st c st'"
  unfolding shape_def by (rule exI[of _ "[]"]) simp

lemma shape_items:
  "queue_fields st' = queue_fields (enqueue_items st0 items) \<Longrightarrow> queue_fields st0 = queue_fields st \<Longrightarrow>
   placeholders_of c = new_placeholders (hint_child_placeholder_id st) (length items) \<Longrightarrow> shape st c st'"
  unfolding shape_def using enqueue_items_queue_fields[of st0 st items] by auto

lemma concat_map_placeholders [simp]:
  "concat (map placeholders_of (map Placeholder ps)) = ps"
  "concat (map (placeholders_of \<circ> Placeholder) ps) = ps"
  by (induction ps) auto

lemma length_filter_enumerate [simp]:
  "length (filter (\<lambda>(i, c). P c) (enumerate n xs)) = length (filter P xs)"
  by (induction xs arbitrary: n) auto

lemma code_check_union_shape:
  assumes "- 1 \<le> hints_meta_index_last st"
    and "code_check_union cfg childs pe a b ind st = Inr (c, st')"
  shows "shape st c st'"
proof -
  from assms(2) obtain nonpep pep where
    part: "union_partition cfg childs ([], []) = Inr (nonpep, pep)"
    by (auto simp: code_check_union_def split: if_splits sum.splits)
  show ?thesis
  proof (cases "nonpep = []")
    case True
    with assms(2) part obtain cs where
      u: "union_childs_pep cfg ind False a b 0 pep st = Inr (cs, st')"
      and c: "c = (if cs \<noteq> [] then Or cs else Raw ''('')"
      by (auto simp: code_check_union_def split: if_splits sum.splits)
    from union_childs_pep_items[OF assms(1) u] c show ?thesis
      by (intro shape_items[where ?st0.0 = st]) auto
  next
    case False
    with assms(2) part obtain nm sc cs where
      t: "add_func_scope_types nonpep (func_wrapper_locals st) = Inr (nm, sc)"
      and u: "union_childs_pep cfg ind True a b 0 pep (st\<lparr>func_wrapper_locals := sc\<rparr>) = Inr (cs, st')"
      and c: "c = Or (IsInstance (if pep \<noteq> [] then a else pe) (TName nm) # cs)"
      by (auto simp: code_check_union_def split: if_splits sum.splits)
    have l: "- 1 \<le> hints_meta_index_last (st\<lparr>func_wrapper_locals := sc\<rparr>)" using assms(1) by simp
    from union_childs_pep_items[OF l u] c show ?thesis
      by (intro shape_items[where ?st0.0 = "st\<lparr>func_wrapper_locals := sc\<rparr>"]) auto
  qed
qed

lemma code_check_shallow_shape:
  "code_check_shallow cfg h pe st = Inr (c, st') \<Longrightarrow> shape st c st'"
  by (auto simp: code_check_shallow_def add_func_scope_type_def intro!: shape_nil
      split: if_splits option.splits)

lemma code_check_sequence_shape:
  assumes "- 1 \<le> hints_meta_index_last st"
    and "code_check_sequence cfg h s childs pe a b ind st = Inr (c, st')"
  shows "shape st c st'"
proof -
  from assms(2) obtain cl hc hs where
    cl: "get_hint_pep_stdlib_type cfg h = Some cl" and childs: "childs = hc # hs"
    by (auto simp: code_check_sequence_def add_func_scope_type_def
        split: option.splits if_splits list.splits)
  let ?sc = "(func_wrapper_locals st)(NType cl \<mapsto> OType cl)"
  show ?thesis
  proof (cases "is_hint_ignorable cfg hc")
    case True
    with assms(2) cl childs show ?thesis
      by (auto simp: code_check_sequence_def add_func_scope_type_def intro!: shape_nil
          split: if_splits)
  next
    case False
    let ?st0 = "st\<lparr>func_wrapper_locals := ?sc, is_var_random_int_needed := True\<rparr>"
    from False assms(2) cl childs obtain p where
      e: "enqueue_hint_child cfg hc ind (PRandItem b) ?st0 = Inr (p, st')"
      and c: "c = And [IsInstance a (TName (NType cl)), Or [Not b, Placeholder p]]"
      by (auto simp: code_check_sequence_def add_func_scope_type_def
          split: if_splits sum.splits)
    have l: "- 1 \<le> hints_meta_index_last ?st0" using assms(1) by simp
    from enqueue_as_items[OF l e] c show ?thesis
      by (intro shape_items[where ?st0.0 = ?st0 and items = "[(hc, PRandItem b, ind)]"])
         (auto simp: new_placeholders_Suc)
  qed
qed

lemma code_check_tuple_fixed_shape:
  assumes "- 1 \<le> hints_meta_index_last st"
    and "code_check_tuple_fixed cfg h s childs a b ind st = Inr (c, st')"
  shows "shape st c st'"
proof (cases "is_hint_pep_tuple_empty h")
  case True
  with assms(2) show ?thesis
    by (auto simp: code_check_tuple_fixed_def intro!: shape_nil split: if_splits)
next
  case False
  with assms(2) obtain cs where
    t: "tuple_fixed_childs cfg ind b 0 childs st = Inr (cs, st')"
    and c: "c = And (IsInstance a TTuple # LenEq b (length childs) # cs)"
    by (auto simp: code_check_tuple_fixed_def split: if_splits sum.splits)
  from tuple_fixed_childs_items[OF assms(1) t] c show ?thesis
    by (intro shape_items[where ?st0.0 = st]) auto
qed

lemma annotated_metadata_placeholders:
  "annotated_metadata b ms sc = Inr (cs, sc') \<Longrightarrow> concat (map placeholders_of cs) = []"
proof (induction b ms sc arbitrary: cs sc' rule: annotated_metadata.induct)
  case (3 assigned vcode vlocals ms sc)
  then show ?case by (auto split: sum.splits)
qed auto

lemma code_check_annotated_shape:
  assumes "- 1 \<le> hints_meta_index_last st"
    and "code_check_annotated cfg h a b ind st = Inr (c, st')"
  shows "shape st c st'"
proof -
  from assms(2) obtain hc m ms p st1 cs sc where
    h: "h = HAnnotated hc m ms"
    and e: "enqueue_hint_child cfg hc ind a st = Inr (p, st1)"
    and am: "annotated_metadata b (m # ms) (func_wrapper_locals st1) = Inr (cs, sc)"
    and c: "c = And (Placeholder p # cs)"
    and st': "st' = st1\<lparr>func_wrapper_locals := sc\<rparr>"
    by (auto simp: code_check_annotated_def split: hint.splits sum.splits)
  from enqueue_as_items[OF assms(1) e] annotated_metadata_placeholders[OF am] c st'
  show ?thesis
    by (intro shape_items[where ?st0.0 = st and items = "[(hc, a, ind)]"])
       (auto simp: new_placeholders_Suc)
qed

lemma code_check_forwardref_shape:
  "code_check_forwardref h pe st = Inr (c, st') \<Longrightarrow> shape st c st'"
  by (auto simp: code_check_forwardref_def intro!: shape_nil split: hint.splits if_splits)

lemma code_check_generic_shape:
  assumes "- 1 \<le> hints_meta_index_last st"
    and "code_check_generic cfg h a b ind st = Inr (c, st')"
  shows "shape st c st'"
proof -
  from assms(2) obtain cl bases cs st1 where
    h: "h = HGeneric cl bases"
    and g: "generic_childs cfg ind b bases st = Inr (cs, st1)"
    and c: "c = And (IsInstance a (TName (NType cl)) # cs)"
    and st': "st' = st1\<lparr>func_wrapper_locals := (func_wrapper_locals st1)(NType cl \<mapsto> OType cl)\<rparr>"
    by (auto simp: code_check_generic_def add_func_scope_type_def split: hint.splits sum.splits)
  from generic_childs_items[OF assms(1) g] c st' show ?thesis
    by (intro shape_items[where ?st0.0 = st]) auto
qed

lemma literal_childs_placeholders:
  "literal_childs b vs sc = (cs, sc') \<Longrightarrow> concat (map placeholders_of cs) = []"
  by (induction b vs sc arbitrary: cs sc' rule: literal_childs.induct)
     (auto simp: add_func_scope_attr_def split: prod.splits)

lemma code_check_literal_shape:
  "code_check_literal cfg h a b st = Inr (c, st') \<Longrightarrow> shape st c st'"
  by (auto simp: code_check_literal_def add_func_scope_types_def intro!: shape_nil
      dest: literal_childs_placeholders split: if_splits hint.splits sum.splits option.splits prod.splits)

lemma pith_curr_assign_queue:
  "pith_curr_assign cfg pe st = (a, b, st1) \<Longrightarrow>
     queue_fields st1 = queue_fields st \<and> hints_meta_index_last st1 = hints_meta_index_last st \<and>
     hint_child_placeholder_id st1 = hint_child_placeholder_id st"
  by (auto simp: pith_curr_assign_def Let_def queue_fields_def split: if_splits)

lemma shape_pre:
  "shape st1 c st' \<Longrightarrow> queue_fields st1 = queue_fields st \<Longrightarrow> shape st c st'"
  unfolding shape_def using enqueue_items_queue_fields[of st1 st]
  by (auto simp: queue_fields_def)

lemma visit_hint_shape:
  assumes "- 1 \<le> hints_meta_index_last st"
    and "visit_hint cfg h pe ind st = Inr (c, st')"
  shows "shape st c st'"
proof (cases "is_hint_pep (reduce_hint h)")
  case False
  with assms(2) show ?thesis
    by (auto simp: visit_hint_def visit_hint_reduced_def add_func_scope_type_def
        intro!: shape_nil split: hint.splits)
next
  case True
  obtain a b st1 where pa: "pith_curr_assign cfg pe st = (a, b, st1)"
    by (cases "pith_curr_assign cfg pe st") auto
  note q = pith_curr_assign_queue[OF pa]
  have l1: "- 1 \<le> hints_meta_index_last st1" using assms(1) q by simp
  have "shape st1 c st'"
    using assms(2) True pa
      code_check_union_shape[OF l1] code_check_shallow_shape code_check_sequence_shape[OF l1]
      code_check_tuple_fixed_shape[OF l1] code_check_annotated_shape[OF l1]
      code_check_forwardref_shape code_check_generic_shape[OF l1] code_check_literal_shape
    by (auto simp: visit_hint_def visit_hint_reduced_def Let_def split: if_splits)
  with q show ?thesis by (auto intro: shape_pre)
qed

lemma placeholder_prefix: "sublist PEP_CODE_HINT_CHILD_PLACEHOLDER_PREFIX (hint_child_placeholder_of i)"
  by (rule prefix_imp_sublist) (simp add: hint_child_placeholder_of_def)

lemma text_clean_placeholder: "text_clean s \<Longrightarrow> \<not> sublist (hint_child_placeholder_of i) s"
  unfolding text_clean_def using placeholder_prefix[of i] sublist_order.order_trans by blast

lemma placeholder_sublist_iff:
  "sublist (hint_child_placeholder_of i) (hint_child_placeholder_of j) \<longleftrightarrow> i = j"
  using placeholder_sublist[of i j] by auto


lemma placeholders_of_replace:
  "code_clean c \<Longrightarrow> code_clean new \<Longrightarrow>
   \<forall>p\<in>set (placeholders_of c). \<exists>j. p = hint_child_placeholder_of j \<Longrightarrow>
   code_clean (replace_placeholder (hint_child_placeholder_of i) new c) \<and>
   placeholders_of (replace_placeholder (hint_child_placeholder_of i) new c) =
     concat (map (\<lambda>p. if p = hint_child_placeholder_of i then placeholders_of new else [p])
       (placeholders_of c))"
proof (induction c rule: code_clean.induct)
  case (1 p)
  then show ?case by (auto simp: placeholder_sublist_iff)
next
  case (2 cs)
  then show ?case by (induction cs) auto
next
  case (3 cs)
  then show ?case by (induction cs) auto
qed (auto dest: text_clean_placeholder)

lemma concat_replace_set:
  "old \<in> set xs \<Longrightarrow>
   set (concat (map (\<lambda>p. if p = old then ys else [p]) xs)) = (set xs - {old}) \<union> set ys"
  by (induction xs) auto

lemma concat_replace_notin:
  "old \<notin> set xs \<Longrightarrow> concat (map (\<lambda>p. if p = old then ys else [p]) xs) = xs"
  by (induction xs) auto

lemma concat_replace_distinct:
  "distinct xs \<Longrightarrow> distinct ys \<Longrightarrow> set ys \<inter> set xs = {} \<Longrightarrow>
   distinct (concat (map (\<lambda>p. if p = old then ys else [p]) xs))"
proof (induction xs)
  case Nil
  then show ?case by simp
next
  case (Cons x xs)
  show ?case
  proof (cases "x = old")
    case True
    with Cons.prems have "old \<notin> set xs" by simp
    from concat_replace_notin[OF this] Cons.prems True show ?thesis by auto
  next
    case False
    have "set (concat (map (\<lambda>p. if p = old then ys else [p]) xs)) \<subseteq> set xs \<union> set ys"
      by (induction xs) auto
    with Cons False show ?thesis by auto
  qed
qed

lemma placeholder_inj_on: "inj hint_child_placeholder_of"
  by (rule injI) (rule placeholder_inj)

lemma new_placeholders_set:
  "set (new_placeholders i n) = hint_child_placeholder_of ` {i + 1..i + int n}"
proof -
  have "(\<lambda>j. i + 1 + int j) ` {0..<n} = {i + 1..i + int n}"
  proof (rule set_eqI)
    fix x show "x \<in> (\<lambda>j. i + 1 + int j) ` {0..<n} \<longleftrightarrow> x \<in> {i + 1..i + int n}"
    proof
      assume "x \<in> (\<lambda>j. i + 1 + int j) ` {0..<n}"
      then show "x \<in> {i + 1..i + int n}" by auto
    next
      assume a: "x \<in> {i + 1..i + int n}"
      then have "x = i + 1 + int (nat (x - i - 1))" "nat (x - i - 1) < n" by auto
      then show "x \<in> (\<lambda>j. i + 1 + int j) ` {0..<n}" by (metis atLeastLessThan_iff image_eqI zero_le)
    qed
  qed
  moreover have "set (new_placeholders i n) =
      hint_child_placeholder_of ` ((\<lambda>j. i + 1 + int j) ` {0..<n})"
    by (simp add: new_placeholders_def image_image)
  ultimately show ?thesis by simp
qed

lemma new_placeholders_distinct: "distinct (new_placeholders i n)"
  unfolding new_placeholders_def
  by (auto simp: distinct_map inj_on_def dest: placeholder_inj)

lemma enqueue_items_meta:
  assumes "- 1 \<le> hints_meta_index_last st"
  shows "hints_meta (enqueue_items st items) k =
     (if hints_meta_index_last st < int k \<and> int k \<le> hints_meta_index_last st + int (length items)
      then (case items ! nat (int k - hints_meta_index_last st - 1) of
              (h, pe, ind) \<Rightarrow> Some (h, hint_child_placeholder_of
                 (hint_child_placeholder_id st + (int k - hints_meta_index_last st)), pe, ind))
      else hints_meta st k)"
  using assms
proof (induction st items rule: enqueue_items.induct)
  case (1 st)
  then show ?case by auto
next
  case (2 st h pe ind xs)
  let ?st1 = "st\<lparr>hints_meta_index_last := hints_meta_index_last st + 1,
           hint_child_placeholder_id := hint_child_placeholder_id st + 1,
           hints_meta := (hints_meta st)(nat (hints_meta_index_last st + 1) \<mapsto>
             (h, hint_child_placeholder_of (hint_child_placeholder_id st + 1), pe, ind))\<rparr>"
  have l1: "- 1 \<le> hints_meta_index_last ?st1" using "2.prems" by simp
  note IH = "2.IH"[OF l1]
  show ?case
  proof (cases "int k = hints_meta_index_last st + 1")
    case True
    then have k: "k = nat (hints_meta_index_last st + 1)" by simp
    from True "2.prems" show ?thesis
      unfolding enqueue_items.simps IH by (simp add: k)
  next
    case False
    then have nk: "k \<noteq> nat (hints_meta_index_last st + 1)" using "2.prems" by auto
    show ?thesis
    proof (cases "hints_meta_index_last st + 1 < int k \<and> int k \<le> hints_meta_index_last st + 1 + int (length xs)")
      case True
      then have "nat (int k - hints_meta_index_last st - 1) = Suc (nat (int k - (hints_meta_index_last st + 1) - 1))"
        by auto
      with True show ?thesis unfolding enqueue_items.simps IH
        by (simp add: algebra_simps)
    next
      case F2: False
      with False nk show ?thesis unfolding enqueue_items.simps IH
        by auto
    qed
  qed
qed

lemma text_clean_simps [simp]: "text_clean []" "text_clean ''(''"
  by (simp_all add: text_clean_def PEP_CODE_HINT_CHILD_PLACEHOLDER_PREFIX_def sublist_code)

lemma union_childs_pep_clean:
  "union_childs_pep cfg ind nonpep a b idx hs st = Inr (cs, st') \<Longrightarrow> list_all code_clean cs"
  by (induction hs arbitrary: st idx cs) (auto split: sum.splits)

lemma tuple_fixed_childs_clean:
  "tuple_fixed_childs cfg ind b idx hs st = Inr (cs, st') \<Longrightarrow> list_all code_clean cs"
  by (induction hs arbitrary: st idx cs) (auto split: sum.splits if_splits)

lemma generic_childs_clean:
  "generic_childs cfg ind b bases st = Inr (cs, st') \<Longrightarrow> list_all code_clean cs"
  by (induction bases arbitrary: st cs) (auto simp: Let_def split: sum.splits if_splits)

lemma annotated_metadata_clean:
  "annotated_metadata b ms sc = Inr (cs, sc') \<Longrightarrow> list_all metadatum_clean ms \<Longrightarrow>
   list_all code_clean cs"
proof (induction b ms sc arbitrary: cs sc' rule: annotated_metadata.induct)
  case (3 assigned vcode vlocals ms sc)
  then show ?case by (auto split: sum.splits)
qed auto

lemma literal_childs_clean:
  "literal_childs b vs sc = (cs, sc') \<Longrightarrow> list_all code_clean cs"
  by (induction b vs sc arbitrary: cs sc' rule: literal_childs.induct)
     (auto simp: add_func_scope_attr_def split: prod.splits)

lemma code_check_union_clean:
  "code_check_union cfg childs pe a b ind st = Inr (c, st') \<Longrightarrow> code_clean c"
  by (auto simp: code_check_union_def add_func_scope_types_def dest!: union_childs_pep_clean
      split: if_splits sum.splits option.splits)

lemma code_check_shallow_clean:
  "code_check_shallow cfg h pe st = Inr (c, st') \<Longrightarrow> code_clean c"
  by (auto simp: code_check_shallow_def add_func_scope_type_def split: if_splits option.splits)

lemma code_check_sequence_clean:
  "code_check_sequence cfg h s childs pe a b ind st = Inr (c, st') \<Longrightarrow> code_clean c"
  by (auto simp: code_check_sequence_def add_func_scope_type_def
      split: option.splits if_splits list.splits sum.splits)

lemma code_check_tuple_fixed_clean:
  "code_check_tuple_fixed cfg h s childs a b ind st = Inr (c, st') \<Longrightarrow> code_clean c"
  by (auto simp: code_check_tuple_fixed_def dest!: tuple_fixed_childs_clean
      split: if_splits sum.splits)

lemma code_check_annotated_clean:
  "code_check_annotated cfg h a b ind st = Inr (c, st') \<Longrightarrow> hint_clean h \<Longrightarrow> code_clean c"
  by (auto simp: code_check_annotated_def dest!: annotated_metadata_clean
      split: hint.splits sum.splits)

lemma code_check_forwardref_clean:
  "code_check_forwardref h pe st = Inr (c, st') \<Longrightarrow> hint_clean h \<Longrightarrow> code_clean c"
  by (auto simp: code_check_forwardref_def split: hint.splits if_splits)

lemma code_check_generic_clean:
  "code_check_generic cfg h a b ind st = Inr (c, st') \<Longrightarrow> code_clean c"
  by (auto simp: code_check_generic_def add_func_scope_type_def dest!: generic_childs_clean
      split: hint.splits sum.splits)

lemma code_check_literal_clean:
  "code_check_literal cfg h a b st = Inr (c, st') \<Longrightarrow> code_clean c"
  by (auto simp: code_check_literal_def add_func_scope_types_def dest!: literal_childs_clean
      split: if_splits hint.splits sum.splits option.splits prod.splits)

lemma visit_hint_clean:
  assumes "visit_hint cfg h pe ind st = Inr (c, st')"
    and "hint_clean (reduce_hint h)"
  shows "code_clean c"
proof (cases "is_hint_pep (reduce_hint h)")
  case False
  with assms(1) show ?thesis
    by (auto simp: visit_hint_def visit_hint_reduced_def add_func_scope_type_def
        split: hint.splits)
next
  case True
  obtain a b st1 where pa: "pith_curr_assign cfg pe st = (a, b, st1)"
    by (cases "pith_curr_assign cfg pe st") auto
  show ?thesis
    using assms True pa
      code_check_union_clean code_check_shallow_clean code_check_sequence_clean
      code_check_tuple_fixed_clean code_check_annotated_clean
      code_check_forwardref_clean code_check_generic_clean code_check_literal_clean
    by (auto simp: visit_hint_def visit_hint_reduced_def Let_def split: if_splits)
qed

lemma distinct_count_list_1: "distinct xs \<Longrightarrow> x \<in> set xs \<Longrightarrow> count_list xs x = 1"
  by (induction xs) auto

lemma hint_curr_meta_Inr:
  "hint_curr_meta cfg st = Inr m \<Longrightarrow>
     hints_meta st (hints_meta_index_curr st) = Some m \<and> hints_meta_index_curr st < SIZE_BIG cfg"
  by (auto simp: hint_curr_meta_def list_index_def split: option.splits if_splits)

lemma bfs_iteration_Inr:
  assumes "bfs_iteration cfg st = Inr st'"
  obtains h ph pe ind c st1 where
    "hint_curr_meta cfg st = Inr (h, ph, pe, ind)"
    "visit_hint cfg h pe ind st = Inr (c, st1)"
    "has_placeholder ph (func_wrapper_code st1)"
    "st' = st1\<lparr>func_wrapper_code := replace_placeholder ph c (func_wrapper_code st1),
               hints_meta := (hints_meta st1)(hints_meta_index_curr st := None),
               hints_meta_index_curr := hints_meta_index_curr st + 1\<rparr>"
  using assms
  by (auto simp: bfs_iteration_def replace_str_substrs_def split: sum.splits prod.splits if_splits)

lemma bfs_iteration_queue_inv:
  assumes inv: "queue_inv st"
    and le: "int (hints_meta_index_curr st) \<le> hints_meta_index_last st"
    and it: "bfs_iteration cfg st = Inr st'"
    and cl: "\<And>h ph pe ind. hint_curr_meta cfg st = Inr (h, ph, pe, ind) \<Longrightarrow>
               hint_clean (reduce_hint h)"
  shows "queue_inv st' \<and> hints_meta_index_curr st' = hints_meta_index_curr st + 1 \<and>
         (\<exists>h pe ind. hint_curr_meta cfg st =
            Inr (h, hint_child_placeholder_of (int (hints_meta_index_curr st)), pe, ind)) \<and>
         count_list (placeholders_of (func_wrapper_code st))
            (hint_child_placeholder_of (int (hints_meta_index_curr st))) = 1"
proof -
  let ?curr = "hints_meta_index_curr st" and ?last = "hints_meta_index_last st"
  let ?P = hint_child_placeholder_of
  from it obtain h ph pe ind c st1 where
    meta: "hint_curr_meta cfg st = Inr (h, ph, pe, ind)"
    and v: "visit_hint cfg h pe ind st = Inr (c, st1)"
    and st': "st' = st1\<lparr>func_wrapper_code := replace_placeholder ph c (func_wrapper_code st1),
               hints_meta := (hints_meta st1)(?curr := None),
               hints_meta_index_curr := ?curr + 1\<rparr>"
    by (rule bfs_iteration_Inr)
  from inv have l: "- 1 \<le> ?last" and ideq: "hint_child_placeholder_id st = ?last"
    and pend: "\<And>k. ?curr \<le> k \<Longrightarrow> int k \<le> ?last \<Longrightarrow>
         \<exists>h pe ind. hints_meta st k = Some (h, ?P (int k), pe, ind)"
    and clean: "code_clean (func_wrapper_code st)"
    and dist: "distinct (placeholders_of (func_wrapper_code st))"
    and pset: "set (placeholders_of (func_wrapper_code st)) = ?P ` {int ?curr..?last}"
    by (auto simp: queue_inv_def)
  from hint_curr_meta_Inr[OF meta] pend[of ?curr] le have ph: "ph = ?P (int ?curr)" by auto
  from visit_hint_shape[OF l v] obtain items where
    qf: "queue_fields st1 = queue_fields (enqueue_items st items)"
    and pc: "placeholders_of c = new_placeholders (hint_child_placeholder_id st) (length items)"
    by (auto simp: shape_def)
  have cc: "code_clean c" by (rule visit_hint_clean[OF v cl[OF meta]])
  let ?n = "int (length items)"
  from qf have f: "hints_meta st1 = hints_meta (enqueue_items st items)"
    "hints_meta_index_last st1 = ?last + ?n"
    "hint_child_placeholder_id st1 = hint_child_placeholder_id st + ?n"
    "func_wrapper_code st1 = func_wrapper_code st"
    by (auto simp: queue_fields_def)
  have mem: "ph \<in> set (placeholders_of (func_wrapper_code st))" using pset ph le by auto
  have new_set: "set (placeholders_of c) = ?P ` {?last + 1..?last + ?n}"
    using pc ideq by (simp add: new_placeholders_set)
  have disj: "set (placeholders_of c) \<inter> set (placeholders_of (func_wrapper_code st)) = {}"
    unfolding new_set pset by (auto dest!: placeholder_inj)
  have dc: "distinct (placeholders_of c)" using pc by (simp add: new_placeholders_distinct)
  have allp: "\<forall>p\<in>set (placeholders_of (func_wrapper_code st)). \<exists>j. p = ?P j"
    unfolding pset by blast
  note rp = placeholders_of_replace[OF clean cc allp, of "int ?curr"]
  have c': "code_clean (func_wrapper_code st')"
    unfolding st' using rp by (simp add: f ph)
  have e1: "placeholders_of (func_wrapper_code st') =
      concat (map (\<lambda>p. if p = ph then placeholders_of c else [p])
        (placeholders_of (func_wrapper_code st)))"
    unfolding st' using rp by (simp add: f ph)
  have d': "distinct (placeholders_of (func_wrapper_code st'))"
    unfolding e1 by (rule concat_replace_distinct[OF dist dc disj])
  have "set (placeholders_of (func_wrapper_code st')) =
      (set (placeholders_of (func_wrapper_code st)) - {ph}) \<union> set (placeholders_of c)"
    unfolding e1 by (rule concat_replace_set[OF mem])
  also have "\<dots> = (?P ` {int ?curr..?last} - {?P (int ?curr)}) \<union> ?P ` {?last + 1..?last + ?n}"
    unfolding new_set pset ph ..
  also have "\<dots> = ?P ` {int ?curr + 1..?last + ?n}"
  proof -
    have "?P ` {int ?curr..?last} - {?P (int ?curr)} = ?P ` ({int ?curr..?last} - {int ?curr})"
      by (auto dest!: placeholder_inj)
    moreover have "({int ?curr..?last} - {int ?curr}) \<union> {?last + 1..?last + ?n}
        = {int ?curr + 1..?last + ?n}" using le by auto
    ultimately show ?thesis by (metis image_Un)
  qed
  finally have s': "set (placeholders_of (func_wrapper_code st')) = ?P ` {int ?curr + 1..?last + ?n}" .
  have pend': "\<exists>h pe ind. hints_meta st' k = Some (h, ?P (int k), pe, ind)"
    if "?curr + 1 \<le> k" "int k \<le> ?last + ?n" for k
  proof (cases "int k \<le> ?last")
    case True
    with that pend[of k] show ?thesis
      unfolding st' by (simp add: f enqueue_items_meta[OF l])
  next
    case False
    with that show ?thesis
      unfolding st' by (auto simp: f enqueue_items_meta[OF l] ideq split: prod.splits)
  qed
  have f': "hints_meta_index_last st' = ?last + ?n" "hint_child_placeholder_id st' = ?last + ?n"
    "hints_meta_index_curr st' = ?curr + 1"
    unfolding st' by (simp_all add: f ideq)
  have "queue_inv st'"
    unfolding queue_inv_def f' using l le c' d' s' pend'
    by (simp add: add.commute)
  moreover have "count_list (placeholders_of (func_wrapper_code st)) (?P (int ?curr)) = 1"
    using distinct_count_list_1[OF dist mem] ph by simp
  ultimately show ?thesis using meta ph f' by simp
qed



lemma start_state_queue_inv:
  assumes "start_state cfg hint_root = Inr (root, st0)"
  shows "queue_inv st0 \<and> root = Placeholder (hint_child_placeholder_of 0) \<and>
         hints_meta_index_curr st0 = 0"
proof -
  have l: "- 1 \<le> hints_meta_index_last initial_state" by (simp add: initial_state_def)
  from assms obtain p st where
    e: "enqueue_hint_child cfg hint_root CODE_INDENT_2 pith_root_expr initial_state = Inr (p, st)"
    and r: "root = Placeholder p" and st0: "st0 = st\<lparr>func_wrapper_code := Placeholder p\<rparr>"
    by (auto simp: start_state_def split: sum.splits)
  from enqueue_as_items[OF l e] have p: "p = hint_child_placeholder_of 0"
    and st: "st = enqueue_items initial_state [(hint_root, pith_root_expr, CODE_INDENT_2)]"
    by (auto simp: initial_state_def)
  show ?thesis unfolding r st0 st p
    by (auto simp: queue_inv_def initial_state_def)
qed




section \<open>Forward references\<close>

lemma scope_wf_upd: "scope_wf sc \<Longrightarrow> canonical nm ob \<Longrightarrow> scope_wf (sc(nm \<mapsto> ob))"
  by (auto simp: scope_wf_def)

lemma scope_wf_D: "scope_wf sc \<Longrightarrow> sc nm = Some ob \<Longrightarrow> canonical nm ob"
  by (simp add: scope_wf_def)

lemma scope_le_upd':
  assumes "scope_wf sc" "canonical nm ob" "\<And>s. nm \<noteq> NLocal s"
  shows "sc \<subseteq>\<^sub>m sc(nm \<mapsto> ob)"
proof -
  have "sc nm = None \<or> sc nm = Some ob"
  proof (cases "sc nm")
    case None
    then show ?thesis by simp
  next
    case (Some ob')
    from scope_wf_D[OF assms(1) Some] assms(2,3) have "ob' = ob" by (cases nm) auto
    with Some show ?thesis by simp
  qed
  then show ?thesis by (auto simp: map_le_def)
qed

lemma update_mapping_scope:
  "update_mapping sc kvs = Inr sc' \<Longrightarrow> scope_wf sc \<Longrightarrow> scope_wf sc' \<and> sc \<subseteq>\<^sub>m sc'"
proof (induction sc kvs arbitrary: sc' rule: update_mapping.induct)
  case (1 sc)
  then show ?case by simp
next
  case (2 sc k v kvs)
  show ?case
  proof (cases "sc (NLocal k)")
    case None
    with "2.prems" have u: "update_mapping (sc(NLocal k \<mapsto> OLocal v)) kvs = Inr sc'" by simp
    have w: "scope_wf (sc(NLocal k \<mapsto> OLocal v))" using "2.prems"(2) by (auto intro: scope_wf_upd)
    from "2.IH"(1)[OF None u w] have "scope_wf sc'" "sc(NLocal k \<mapsto> OLocal v) \<subseteq>\<^sub>m sc'"
      by (auto simp: fun_upd_def)
    moreover have "sc \<subseteq>\<^sub>m sc(NLocal k \<mapsto> OLocal v)" using None by (auto simp: map_le_def)
    ultimately show ?thesis by (auto intro: map_le_trans)
  next
    case (Some ob)
    with "2.prems" have ob: "ob = OLocal v" and u: "update_mapping sc kvs = Inr sc'"
      by (auto split: if_splits)
    from "2.IH"(2)[OF Some ob u "2.prems"(2)] show ?thesis .
  qed
qed

lemma annotated_metadata_scope:
  "annotated_metadata b ms sc = Inr (cs, sc') \<Longrightarrow> scope_wf sc \<Longrightarrow> scope_wf sc' \<and> sc \<subseteq>\<^sub>m sc'"
proof (induction b ms sc arbitrary: cs sc' rule: annotated_metadata.induct)
  case (3 assigned vcode vlocals ms sc)
  from "3.prems"(1) obtain sc1 cs1 where u: "update_mapping sc vlocals = Inr sc1"
    and r: "annotated_metadata assigned ms sc1 = Inr (cs1, sc')"
    by (auto split: sum.splits)
  from update_mapping_scope[OF u "3.prems"(2)] have w1: "scope_wf sc1" and l1: "sc \<subseteq>\<^sub>m sc1" by auto
  from "3.IH"[OF u r w1] l1 show ?case by (auto intro: map_le_trans)
qed auto

lemma literal_childs_scope:
  "literal_childs b vs sc = (cs, sc') \<Longrightarrow> scope_wf sc \<Longrightarrow> scope_wf sc' \<and> sc \<subseteq>\<^sub>m sc'"
proof (induction b vs sc arbitrary: cs sc' rule: literal_childs.induct)
  case (1 assigned sc)
  then show ?case by simp
next
  case (2 assigned hint_child vs sc)
  let ?sc1 = "sc(NAttr hint_child \<mapsto> OAttr hint_child)"
  from "2.prems"(1) obtain cs1 where r: "literal_childs assigned vs ?sc1 = (cs1, sc')"
    by (auto simp: add_func_scope_attr_def split: prod.splits)
  have w1: "scope_wf ?sc1" using "2.prems"(2) by (auto intro: scope_wf_upd)
  have l1: "sc \<subseteq>\<^sub>m ?sc1" using "2.prems"(2) by (auto intro: scope_le_upd')
  have "add_func_scope_attr hint_child sc = (NAttr hint_child, ?sc1)"
    by (simp add: add_func_scope_attr_def)
  from "2.IH"[OF this[symmetric] r w1] have "scope_wf sc'" "?sc1 \<subseteq>\<^sub>m sc'"
    by (auto simp: fun_upd_def)
  with l1 show ?case by (auto intro: map_le_trans)
qed

lemma code_check_union_side:
  assumes "- 1 \<le> hints_meta_index_last st"
    and "code_check_union cfg childs pe a b ind st = Inr (c, st')"
  shows "side st st'"
proof -
  from assms(2) obtain nonpep pep where
    part: "union_partition cfg childs ([], []) = Inr (nonpep, pep)"
    by (auto simp: code_check_union_def split: if_splits sum.splits)
  show ?thesis
  proof (cases "nonpep = []")
    case True
    with assms(2) part obtain cs where
      u: "union_childs_pep cfg ind False a b 0 pep st = Inr (cs, st')"
      by (auto simp: code_check_union_def split: if_splits sum.splits)
    from union_childs_pep_items[OF assms(1) u] show ?thesis
      by (auto simp: side_def scope_grows_def)
  next
    case False
    with assms(2) part obtain nm sc cs where
      t: "add_func_scope_types nonpep (func_wrapper_locals st) = Inr (nm, sc)"
      and u: "union_childs_pep cfg ind True a b 0 pep (st\<lparr>func_wrapper_locals := sc\<rparr>) = Inr (cs, st')"
      by (auto simp: code_check_union_def split: if_splits sum.splits)
    have l: "- 1 \<le> hints_meta_index_last (st\<lparr>func_wrapper_locals := sc\<rparr>)" using assms(1) by simp
    from t have "scope_wf (func_wrapper_locals st) \<longrightarrow>
        scope_wf sc \<and> func_wrapper_locals st \<subseteq>\<^sub>m sc"
      by (auto simp: add_func_scope_types_def intro!: scope_wf_upd scope_le_upd' split: option.splits)
    with union_childs_pep_items[OF l u] show ?thesis
      by (auto simp: side_def scope_grows_def)
  qed
qed

lemma code_check_shallow_side:
  "code_check_shallow cfg h pe st = Inr (c, st') \<Longrightarrow> side st st'"
  by (auto simp: code_check_shallow_def add_func_scope_type_def side_def scope_grows_def
      intro!: scope_wf_upd scope_le_upd' split: if_splits option.splits)

lemma code_check_sequence_side:
  assumes "- 1 \<le> hints_meta_index_last st"
    and "code_check_sequence cfg h s childs pe a b ind st = Inr (c, st')"
  shows "side st st'"
proof -
  from assms(2) obtain cl hc hs where
    cl: "get_hint_pep_stdlib_type cfg h = Some cl" and childs: "childs = hc # hs"
    by (auto simp: code_check_sequence_def add_func_scope_type_def
        split: option.splits if_splits list.splits)
  let ?sc = "(func_wrapper_locals st)(NType cl \<mapsto> OType cl)"
  have sc: "scope_wf (func_wrapper_locals st) \<longrightarrow>
        scope_wf ?sc \<and> func_wrapper_locals st \<subseteq>\<^sub>m ?sc"
    by (auto intro!: scope_wf_upd scope_le_upd')
  show ?thesis
  proof (cases "is_hint_ignorable cfg hc")
    case True
    with assms(2) cl childs sc show ?thesis
      by (auto simp: code_check_sequence_def add_func_scope_type_def side_def scope_grows_def
          split: if_splits)
  next
    case False
    let ?st0 = "st\<lparr>func_wrapper_locals := ?sc, is_var_random_int_needed := True\<rparr>"
    from False assms(2) cl childs obtain p where
      e: "enqueue_hint_child cfg hc ind (PRandItem b) ?st0 = Inr (p, st')"
      by (auto simp: code_check_sequence_def add_func_scope_type_def
          split: if_splits sum.splits)
    have l: "- 1 \<le> hints_meta_index_last ?st0" using assms(1) by simp
    from enqueue_as_items[OF l e] sc show ?thesis
      by (auto simp: side_def scope_grows_def)
  qed
qed

lemma code_check_tuple_fixed_side:
  assumes "- 1 \<le> hints_meta_index_last st"
    and "code_check_tuple_fixed cfg h s childs a b ind st = Inr (c, st')"
  shows "side st st'"
proof (cases "is_hint_pep_tuple_empty h")
  case True
  with assms(2) show ?thesis
    by (auto simp: code_check_tuple_fixed_def side_def scope_grows_def split: if_splits)
next
  case False
  with assms(2) obtain cs where
    t: "tuple_fixed_childs cfg ind b 0 childs st = Inr (cs, st')"
    by (auto simp: code_check_tuple_fixed_def split: if_splits sum.splits)
  from tuple_fixed_childs_items[OF assms(1) t] show ?thesis
    by (auto simp: side_def scope_grows_def)
qed

lemma code_check_annotated_side:
  assumes "- 1 \<le> hints_meta_index_last st"
    and "code_check_annotated cfg h a b ind st = Inr (c, st')"
  shows "side st st'"
proof -
  from assms(2) obtain hc m ms p st1 cs sc where
    h: "h = HAnnotated hc m ms"
    and e: "enqueue_hint_child cfg hc ind a st = Inr (p, st1)"
    and am: "annotated_metadata b (m # ms) (func_wrapper_locals st1) = Inr (cs, sc)"
    and st': "st' = st1\<lparr>func_wrapper_locals := sc\<rparr>"
    by (auto simp: code_check_annotated_def split: hint.splits sum.splits)
  from enqueue_as_items[OF assms(1) e] have st1: "st1 = enqueue_items st [(hc, a, ind)]" by simp
  from annotated_metadata_scope[OF am] st1 st' show ?thesis
    by (auto simp: side_def scope_grows_def)
qed

lemma code_check_generic_side:
  assumes "- 1 \<le> hints_meta_index_last st"
    and "code_check_generic cfg h a b ind st = Inr (c, st')"
  shows "side st st'"
proof -
  from assms(2) obtain cl bases cs st1 where
    h: "h = HGeneric cl bases"
    and g: "generic_childs cfg ind b bases st = Inr (cs, st1)"
    and st': "st' = st1\<lparr>func_wrapper_locals := (func_wrapper_locals st1)(NType cl \<mapsto> OType cl)\<rparr>"
    by (auto simp: code_check_generic_def add_func_scope_type_def split: hint.splits sum.splits)
  from generic_childs_items[OF assms(1) g] st' show ?thesis
    by (auto simp: side_def scope_grows_def intro!: scope_wf_upd scope_le_upd')
qed

lemma code_check_literal_side:
  assumes "code_check_literal cfg h a b st = Inr (c, st')"
  shows "side st st'"
proof -
  from assms obtain vs nm sc cs sc1 where
    t: "add_func_scope_types (map HClass (remdups (map type_of vs))) (func_wrapper_locals st) = Inr (nm, sc)"
    and lc: "literal_childs b vs sc = (cs, sc1)"
    and st': "st' = st\<lparr>func_wrapper_locals := sc1\<rparr>"
    by (auto simp: code_check_literal_def split: if_splits hint.splits sum.splits prod.splits)
  from t have 1: "scope_wf (func_wrapper_locals st) \<longrightarrow>
        scope_wf sc \<and> func_wrapper_locals st \<subseteq>\<^sub>m sc"
    by (auto simp: add_func_scope_types_def intro!: scope_wf_upd scope_le_upd' split: option.splits)
  from literal_childs_scope[OF lc] 1 st' show ?thesis
    by (auto simp: side_def scope_grows_def intro: map_le_trans)
qed

lemma code_check_forwardref_side:
  assumes "code_check_forwardref h pe st = Inr (c, st')"
  shows "scope_grows st st' \<and>
         pith_curr_assign_expr_name_counter st' = pith_curr_assign_expr_name_counter st \<and>
         (\<exists>n. h = HForwardRef n \<and>
            (if CHR ''.'' \<in> set n
             then forwardref_names st' = forwardref_names st \<and>
                  func_wrapper_locals st' NTypistry = Some OTypistry \<and>
                  c = IsInstance pe (TTypistry n)
             else forwardref_names st' = set_add (forwardref_names st) n \<and>
                  c = IsInstance pe (TForwardrefUnqualified n)))"
  using assms
  by (auto simp: code_check_forwardref_def scope_grows_def forwardref_names_def
      intro!: scope_wf_upd scope_le_upd' split: hint.splits if_splits)

lemma side_names: "side st st' \<Longrightarrow> forwardref_names st' = forwardref_names st"
  by (simp add: side_def forwardref_names_def)

lemma pith_curr_assign_side:
  "pith_curr_assign cfg pe st = (a, b, st1) \<Longrightarrow>
     func_wrapper_locals st1 = func_wrapper_locals st \<and>
     hints_forwardref_class_basename st1 = hints_forwardref_class_basename st \<and>
     pith_curr_assign_expr_name_counter st \<le> pith_curr_assign_expr_name_counter st1"
  by (auto simp: pith_curr_assign_def Let_def split: if_splits)

lemma code_check_sequence_nil_fails:
  "code_check_sequence cfg h s [] pe a b ind st \<noteq> Inr r"
  by (auto simp: code_check_sequence_def add_func_scope_type_def split: option.splits if_splits)

lemma visit_hint_side:
  assumes l: "- 1 \<le> hints_meta_index_last st"
    and v: "visit_hint cfg h pe ind st = Inr (c, st')"
    and d: "\<not> (SignForwardRef \<in> HINT_PEP_SIGNS_TYPE_ORIGIN_STDLIB cfg \<and>
              SignForwardRef \<notin> HINT_PEP_SIGNS_SUPPORTED_DEEP cfg)"
  shows "scope_grows st st' \<and>
         pith_curr_assign_expr_name_counter st \<le> pith_curr_assign_expr_name_counter st' \<and>
         (case reduce_hint h of
            HForwardRef n \<Rightarrow>
              (if CHR ''.'' \<in> set n
               then forwardref_names st' = forwardref_names st \<and>
                    func_wrapper_locals st' NTypistry = Some OTypistry \<and>
                    c = IsInstance pe (TTypistry n)
               else forwardref_names st' = set_add (forwardref_names st) n \<and>
                    c = IsInstance pe (TForwardrefUnqualified n))
          | _ \<Rightarrow> forwardref_names st' = forwardref_names st)"
proof (cases "is_hint_pep (reduce_hint h)")
  case False
  with v show ?thesis
    by (auto simp: visit_hint_def visit_hint_reduced_def add_func_scope_type_def
        scope_grows_def forwardref_names_def
        intro!: scope_wf_upd scope_le_upd' split: hint.splits)
next
  case True
  let ?h = "reduce_hint h"
  obtain a b st1 where pa: "pith_curr_assign cfg pe st = (a, b, st1)"
    by (cases "pith_curr_assign cfg pe st") auto
  note q = pith_curr_assign_queue[OF pa] and ps = pith_curr_assign_side[OF pa]
  have l1: "- 1 \<le> hints_meta_index_last st1" using l q by simp
  note sides = code_check_union_side[OF l1] code_check_shallow_side code_check_sequence_side[OF l1]
      code_check_tuple_fixed_side[OF l1] code_check_annotated_side[OF l1]
      code_check_generic_side[OF l1] code_check_literal_side
  show ?thesis
  proof (cases "\<exists>n. ?h = HForwardRef n")
    case fr: True
    then obtain n where n: "?h = HForwardRef n" by auto
    have "code_check_forwardref ?h pe st1 = Inr (c, st')"
      using v True pa n d code_check_union_nil[of cfg pe a b _ st1]
        code_check_sequence_nil_fails[of cfg ?h SignForwardRef pe a b _ st1]
        code_check_tuple_fixed_nil[of SignForwardRef cfg ?h a b _ st1]
      by (auto simp: visit_hint_def visit_hint_reduced_def Let_def split: if_splits)
    from code_check_forwardref_side[OF this] n ps show ?thesis
      by (auto simp: scope_grows_def forwardref_names_def)
  next
    case nfr: False
    have "side st1 st'"
      using v True pa nfr sides
      by (auto simp: visit_hint_def visit_hint_reduced_def Let_def code_check_forwardref_def
          split: if_splits hint.splits)
    with ps nfr show ?thesis
      by (auto simp: side_def scope_grows_def forwardref_names_def split: hint.splits)
  qed
qed

lemma mentions_replace:
  "code_clean c \<Longrightarrow> \<forall>p\<in>set (placeholders_of c). \<exists>j. p = hint_child_placeholder_of j \<Longrightarrow>
   mentions t (replace_placeholder (hint_child_placeholder_of i) new c) \<longleftrightarrow>
     mentions t c \<or> (hint_child_placeholder_of i \<in> set (placeholders_of c) \<and> mentions t new)"
proof (induction c rule: code_clean.induct)
  case (1 p)
  then show ?case by (auto simp: placeholder_sublist_iff)
next
  case (2 cs)
  then show ?case by (induction cs) auto
next
  case (3 cs)
  then show ?case by (induction cs) auto
qed (auto dest: text_clean_placeholder)

lemma set_add_set: "set (set_add xs x) = insert x (set xs)"
  by (auto simp: set_add_def)

lemma set_add_distinct: "distinct xs \<Longrightarrow> distinct (set_add xs x)"
  by (auto simp: set_add_def)

lemma bfs_iteration_last:
  assumes "- 1 \<le> hints_meta_index_last st" and "bfs_iteration cfg st = Inr st'"
  shows "- 1 \<le> hints_meta_index_last st'"
proof -
  from assms(2) obtain h ph pe ind c st1 where
    v: "visit_hint cfg h pe ind st = Inr (c, st1)"
    and st': "st' = st1\<lparr>func_wrapper_code := replace_placeholder ph c (func_wrapper_code st1),
               hints_meta := (hints_meta st1)(hints_meta_index_curr st := None),
               hints_meta_index_curr := hints_meta_index_curr st + 1\<rparr>"
    by (rule bfs_iteration_Inr)
  from visit_hint_shape[OF assms(1) v] assms(1) show ?thesis
    by (auto simp: shape_def queue_fields_def st')
qed

lemma bfs_forwardref_names:
  "- 1 \<le> hints_meta_index_last st \<Longrightarrow> bfs cfg st = Inr st' \<Longrightarrow> \<not> forwardref_shallow cfg \<Longrightarrow>
   scope_wf (func_wrapper_locals st) \<Longrightarrow>
   set (forwardref_names st') =
     set (forwardref_names st) \<union> {n \<in> forwardrefs_visited cfg st. CHR ''.'' \<notin> set n} \<and>
   (distinct (forwardref_names st) \<longrightarrow> distinct (forwardref_names st')) \<and>
   (\<forall>n \<in> forwardrefs_visited cfg st.
      CHR ''.'' \<in> set n \<longrightarrow> func_wrapper_locals st' NTypistry = Some OTypistry) \<and>
   scope_wf (func_wrapper_locals st') \<and> func_wrapper_locals st \<subseteq>\<^sub>m func_wrapper_locals st'"
proof (induction cfg st rule: bfs.induct)
  case (1 cfg st)
  show ?case
  proof (cases "int (hints_meta_index_curr st) \<le> hints_meta_index_last st")
    case False
    with "1.prems"(2) have "st' = st" by (subst (asm) bfs.simps) simp
    moreover from False have "bfs_trace cfg st = []" by (subst bfs_trace.simps) simp
    ultimately show ?thesis using "1.prems"(4) by (simp add: forwardrefs_visited_def)
  next
    case True
    with "1.prems"(2) obtain st1 where it: "bfs_iteration cfg st = Inr st1"
      and b: "bfs cfg st1 = Inr st'"
      by (subst (asm) bfs.simps) (auto split: sum.splits)
    from it obtain h ph pe ind c st0 where
      meta: "hint_curr_meta cfg st = Inr (h, ph, pe, ind)"
      and v: "visit_hint cfg h pe ind st = Inr (c, st0)"
      and st1: "st1 = st0\<lparr>func_wrapper_code := replace_placeholder ph c (func_wrapper_code st0),
               hints_meta := (hints_meta st0)(hints_meta_index_curr st := None),
               hints_meta_index_curr := hints_meta_index_curr st + 1\<rparr>"
      by (rule bfs_iteration_Inr)
    note l = "1.prems"(1)
    from bfs_iteration_last[OF l it] have l1: "- 1 \<le> hints_meta_index_last st1" .
    from "1.prems"(3) have d: "\<not> (SignForwardRef \<in> HINT_PEP_SIGNS_TYPE_ORIGIN_STDLIB cfg \<and>
              SignForwardRef \<notin> HINT_PEP_SIGNS_SUPPORTED_DEEP cfg)"
      by (simp add: forwardref_shallow_def)
    note side = visit_hint_side[OF l v d]
    from side "1.prems"(4) have w0: "scope_wf (func_wrapper_locals st0)"
      and le0: "func_wrapper_locals st \<subseteq>\<^sub>m func_wrapper_locals st0"
      by (auto simp: scope_grows_def)
    have w1: "scope_wf (func_wrapper_locals st1)" using w0 by (simp add: st1)
    note IH = "1.IH"[OF True it l1 b "1.prems"(3) w1]
    have tr: "bfs_trace cfg st = h # bfs_trace cfg st1" by (rule bfs_trace_step[OF True meta it])
    have fv: "forwardrefs_visited cfg st =
        (case reduce_hint h of HForwardRef n \<Rightarrow> {n} | _ \<Rightarrow> {}) \<union> forwardrefs_visited cfg st1"
      unfolding forwardrefs_visited_def tr by (auto split: hint.splits)
    have n1: "forwardref_names st1 = forwardref_names st0"
      and loc1: "func_wrapper_locals st1 = func_wrapper_locals st0"
      by (simp_all add: st1 forwardref_names_def)
    have le': "func_wrapper_locals st \<subseteq>\<^sub>m func_wrapper_locals st'"
      using IH le0 loc1 by (auto intro: map_le_trans)
    have tbind: "func_wrapper_locals st0 NTypistry = Some OTypistry \<Longrightarrow>
        func_wrapper_locals st' NTypistry = Some OTypistry"
      using IH loc1 by (auto simp: map_le_def dom_def)
    show ?thesis
    proof (cases "\<exists>n. reduce_hint h = HForwardRef n")
      case False
      with side have "forwardref_names st0 = forwardref_names st" by (auto split: hint.splits)
      moreover from False have "forwardrefs_visited cfg st = forwardrefs_visited cfg st1"
        unfolding fv by (auto split: hint.splits)
      ultimately show ?thesis using IH n1 le' by auto
    next
      case True
      then obtain n where n: "reduce_hint h = HForwardRef n" by auto
      then have fv': "forwardrefs_visited cfg st = insert n (forwardrefs_visited cfg st1)"
        unfolding fv by simp
      show ?thesis
      proof (cases "CHR ''.'' \<in> set n")
        case q: True
        with side n have "forwardref_names st0 = forwardref_names st"
          and "func_wrapper_locals st0 NTypistry = Some OTypistry" by auto
        with IH n1 le' tbind q show ?thesis unfolding fv' by auto
      next
        case u: False
        with side n have "forwardref_names st0 = set_add (forwardref_names st) n" by auto
        with IH n1 le' u show ?thesis unfolding fv'
          by (auto simp: set_add_set set_add_distinct)
      qed
    qed
  qed
qed

lemma bfs_forwardref_mentions:
  "queue_inv st \<Longrightarrow> bfs cfg st = Inr st' \<Longrightarrow> \<not> forwardref_shallow cfg \<Longrightarrow>
   \<forall>h\<in>set (bfs_trace cfg st). hint_clean (reduce_hint h) \<Longrightarrow>
   (\<forall>t. mentions t (func_wrapper_code st) \<longrightarrow> mentions t (func_wrapper_code st')) \<and>
   (\<forall>n \<in> forwardrefs_visited cfg st.
      if CHR ''.'' \<in> set n then mentions (TTypistry n) (func_wrapper_code st')
      else mentions (TForwardrefUnqualified n) (func_wrapper_code st'))"
proof (induction cfg st rule: bfs.induct)
  case (1 cfg st)
  show ?case
  proof (cases "int (hints_meta_index_curr st) \<le> hints_meta_index_last st")
    case False
    with "1.prems"(2) have "st' = st" by (subst (asm) bfs.simps) simp
    moreover from False have "bfs_trace cfg st = []" by (subst bfs_trace.simps) simp
    ultimately show ?thesis by (simp add: forwardrefs_visited_def)
  next
    case True
    with "1.prems"(2) obtain st1 where it: "bfs_iteration cfg st = Inr st1"
      and b: "bfs cfg st1 = Inr st'"
      by (subst (asm) bfs.simps) (auto split: sum.splits)
    from it obtain h ph pe ind c st0 where
      meta: "hint_curr_meta cfg st = Inr (h, ph, pe, ind)"
      and v: "visit_hint cfg h pe ind st = Inr (c, st0)"
      and st1: "st1 = st0\<lparr>func_wrapper_code := replace_placeholder ph c (func_wrapper_code st0),
               hints_meta := (hints_meta st0)(hints_meta_index_curr st := None),
               hints_meta_index_curr := hints_meta_index_curr st + 1\<rparr>"
      by (rule bfs_iteration_Inr)
    have tr: "bfs_trace cfg st = h # bfs_trace cfg st1" by (rule bfs_trace_step[OF True meta it])
    from "1.prems"(4) have clh: "hint_clean (reduce_hint h)"
      and cl1: "\<forall>h\<in>set (bfs_trace cfg st1). hint_clean (reduce_hint h)"
      unfolding tr by simp_all
    have cl: "hint_clean (reduce_hint h')" if "hint_curr_meta cfg st = Inr (h', ph', pe', ind')"
      for h' ph' pe' ind' using that meta clh by simp
    note inv = "1.prems"(1)
    from inv have l: "- 1 \<le> hints_meta_index_last st"
      and clean: "code_clean (func_wrapper_code st)"
      and pset: "set (placeholders_of (func_wrapper_code st)) =
          hint_child_placeholder_of ` {int (hints_meta_index_curr st)..hints_meta_index_last st}"
      by (auto simp: queue_inv_def)
    note step = bfs_iteration_queue_inv[OF inv True it cl]
    from step have inv1: "queue_inv st1" by simp
    from step meta have ph: "ph = hint_child_placeholder_of (int (hints_meta_index_curr st))"
      by auto
    have mem: "ph \<in> set (placeholders_of (func_wrapper_code st))" using pset ph True by auto
    have allp: "\<forall>p\<in>set (placeholders_of (func_wrapper_code st)). \<exists>j. p = hint_child_placeholder_of j"
      unfolding pset by blast
    from "1.prems"(3) have d: "\<not> (SignForwardRef \<in> HINT_PEP_SIGNS_TYPE_ORIGIN_STDLIB cfg \<and>
              SignForwardRef \<notin> HINT_PEP_SIGNS_SUPPORTED_DEEP cfg)"
      by (simp add: forwardref_shallow_def)
    note side = visit_hint_side[OF l v d]
    note IH = "1.IH"[OF True it inv1 b "1.prems"(3) cl1]
    from visit_hint_shape[OF l v] have c0: "func_wrapper_code st0 = func_wrapper_code st"
      by (auto simp: shape_def queue_fields_def)
    have fv: "forwardrefs_visited cfg st =
        (case reduce_hint h of HForwardRef n \<Rightarrow> {n} | _ \<Rightarrow> {}) \<union> forwardrefs_visited cfg st1"
      unfolding forwardrefs_visited_def tr by (auto split: hint.splits)
    have code1: "func_wrapper_code st1 = replace_placeholder ph c (func_wrapper_code st)"
      by (simp add: st1 c0)
    have ment1: "mentions t (func_wrapper_code st1) \<longleftrightarrow> mentions t (func_wrapper_code st) \<or> mentions t c" for t
      unfolding code1 ph using mentions_replace[OF clean allp] mem[unfolded ph] by simp
    show ?thesis
    proof (cases "\<exists>n. reduce_hint h = HForwardRef n")
      case False
      then have "forwardrefs_visited cfg st = forwardrefs_visited cfg st1"
        unfolding fv by (auto split: hint.splits)
      then show ?thesis using IH ment1 by auto
    next
      case True
      then obtain n where n: "reduce_hint h = HForwardRef n" by auto
      then have fv': "forwardrefs_visited cfg st = insert n (forwardrefs_visited cfg st1)"
        unfolding fv by simp
      show ?thesis
      proof (cases "CHR ''.'' \<in> set n")
        case q: True
        with side n have "c = IsInstance pe (TTypistry n)" by auto
        with IH ment1[of "TTypistry n"] ment1 q show ?thesis unfolding fv' by auto
      next
        case u: False
        with side n have "c = IsInstance pe (TForwardrefUnqualified n)" by auto
        with IH ment1[of "TForwardrefUnqualified n"] ment1 u show ?thesis unfolding fv' by auto
      qed
    qed
  qed
qed

text \<open>
  Claim C9. When \<open>pep_code_check_hint\<close> returns (and the tables send forward references to
  the branch for forward references), the names returned are exactly the classnames
  without a \<open>.\<close> of the forward references visited, each once; for every forward reference
  visited whose classname contains a \<open>.\<close>, the classname is not among the names returned
  and the scope binds the typistry; and the names are empty when no unqualified forward
  reference was visited. When moreover the text pasted from every hint visited is free of
  the prefix \<open>@[\<close> of the placeholders, the returned code tests against the second-stage
  placeholder of every name returned, and against the typistry expression of every
  qualified classname visited.
\<close>

theorem forwardref_class_basenames:
  assumes "pep_code_check_hint cfg hint_root = Inr (RootCheck c r, sc, names)"
    and "\<not> forwardref_shallow cfg"
  shows "set names = {n. HForwardRef n \<in> reduce_hint ` set (hints_visited cfg hint_root) \<and>
                        CHR ''.'' \<notin> set n} \<and>
         distinct names \<and>
         (\<forall>n. HForwardRef n \<in> reduce_hint ` set (hints_visited cfg hint_root) \<and>
              CHR ''.'' \<in> set n \<longrightarrow>
              n \<notin> set names \<and> sc NTypistry = Some OTypistry) \<and>
         ((\<forall>n. HForwardRef n \<in> reduce_hint ` set (hints_visited cfg hint_root) \<longrightarrow>
               CHR ''.'' \<in> set n) \<longrightarrow> names = []) \<and>
         ((\<forall>h\<in>set (hints_visited cfg hint_root). hint_clean (reduce_hint h)) \<longrightarrow>
            (\<forall>n \<in> set names. mentions (TForwardrefUnqualified n) c) \<and>
            (\<forall>n. HForwardRef n \<in> reduce_hint ` set (hints_visited cfg hint_root) \<and>
                 CHR ''.'' \<in> set n \<longrightarrow> mentions (TTypistry n) c))"
proof -
  from assms(1) obtain root st0 st where
    s: "start_state cfg hint_root = Inr (root, st0)" and b: "bfs cfg st0 = Inr st"
    and rc: "return_code root st = Inr (RootCheck c r, sc, names)"
    by (auto simp: pep_code_check_hint_def split: sum.splits)
  from rc have c: "c = func_wrapper_code st" and names: "names = forwardref_names st"
    and sc: "sc = (if is_var_random_int_needed st
                 then (func_wrapper_locals st)(NGetrandbits \<mapsto> OGetrandbits)
                 else func_wrapper_locals st)"
    by (auto simp: return_code_def forwardref_names_def split: if_splits)
  from start_state_queue_inv[OF s] have inv0: "queue_inv st0" by simp
  then have l0: "- 1 \<le> hints_meta_index_last st0" by (simp add: queue_inv_def)
  from s have n0: "forwardref_names st0 = []" and w0: "scope_wf (func_wrapper_locals st0)"
    by (auto simp: start_state_def enqueue_hint_child_def Let_def initial_state_def
        forwardref_names_def scope_wf_def split: sum.splits option.splits)
  have tr: "hints_visited cfg hint_root = bfs_trace cfg st0"
    using s by (simp add: hints_visited_def)
  have mem: "(HForwardRef n \<in> reduce_hint ` set (hints_visited cfg hint_root)) =
      (n \<in> forwardrefs_visited cfg st0)" for n
    unfolding tr by (simp add: forwardrefs_visited_def)
  note fin = bfs_forwardref_names[OF l0 b assms(2) w0]
  from fin n0 have 1: "set names = {n. n \<in> forwardrefs_visited cfg st0 \<and> CHR ''.'' \<notin> set n}"
    by (auto simp: names)
  from fin n0 have 2: "distinct names" by (simp add: names)
  from fin have 4: "func_wrapper_locals st NTypistry = Some OTypistry"
    if "n \<in> forwardrefs_visited cfg st0" "CHR ''.'' \<in> set n" for n
    using that by blast
  have 5: "func_wrapper_locals st NTypistry = Some OTypistry \<Longrightarrow> sc NTypistry = Some OTypistry"
    by (simp add: sc)
  have C: "\<forall>n. n \<in> forwardrefs_visited cfg st0 \<and> CHR ''.'' \<in> set n \<longrightarrow>
      n \<notin> set names \<and> sc NTypistry = Some OTypistry"
  proof (intro allI impI)
    fix n assume n: "n \<in> forwardrefs_visited cfg st0 \<and> CHR ''.'' \<in> set n"
    then have "n \<notin> set names" unfolding 1 by simp
    moreover from 4[of n] n 5 have "sc NTypistry = Some OTypistry" by blast
    ultimately show "n \<notin> set names \<and> sc NTypistry = Some OTypistry" by simp
  qed
  have D: "(\<forall>n. n \<in> forwardrefs_visited cfg st0 \<longrightarrow> CHR ''.'' \<in> set n) \<longrightarrow> names = []"
  proof
    assume a: "\<forall>n. n \<in> forwardrefs_visited cfg st0 \<longrightarrow> CHR ''.'' \<in> set n"
    have "set names = {}" unfolding 1 using a by auto
    then show "names = []" by simp
  qed
  have E: "(\<forall>h\<in>set (bfs_trace cfg st0). hint_clean (reduce_hint h)) \<longrightarrow>
      (\<forall>n \<in> set names. mentions (TForwardrefUnqualified n) c) \<and>
      (\<forall>n. n \<in> forwardrefs_visited cfg st0 \<and> CHR ''.'' \<in> set n \<longrightarrow> mentions (TTypistry n) c)"
  proof
    assume cl: "\<forall>h\<in>set (bfs_trace cfg st0). hint_clean (reduce_hint h)"
    note m = bfs_forwardref_mentions[OF inv0 b assms(2) cl]
    from m have m1: "mentions (TForwardrefUnqualified n) c"
      if "n \<in> forwardrefs_visited cfg st0" "CHR ''.'' \<notin> set n" for n
      using that unfolding c by (auto split: if_splits)
    from m have m2: "mentions (TTypistry n) c"
      if "n \<in> forwardrefs_visited cfg st0" "CHR ''.'' \<in> set n" for n
      using that unfolding c by (auto split: if_splits)
    from m1 m2 show "(\<forall>n \<in> set names. mentions (TForwardrefUnqualified n) c) \<and>
      (\<forall>n. n \<in> forwardrefs_visited cfg st0 \<and> CHR ''.'' \<in> set n \<longrightarrow> mentions (TTypistry n) c)"
      unfolding 1 by simp
  qed
  show ?thesis unfolding mem using 1 2 C D E[folded tr] by (intro conjI)
qed

theorem forwardref_class_basenames_witness:
  "\<not> isl (pep_code_check_hint example_config
            (HSub (Sign ''List'') [HSub (Sign ''Union'') [HForwardRef ''Foo'', HForwardRef ''pkg.Bar'']])) \<and>
   \<not> forwardref_shallow example_config \<and>
   hints_visited example_config
      (HSub (Sign ''List'') [HSub (Sign ''Union'') [HForwardRef ''Foo'', HForwardRef ''pkg.Bar'']]) =
     [HSub (Sign ''List'') [HSub (Sign ''Union'') [HForwardRef ''Foo'', HForwardRef ''pkg.Bar'']],
      HSub (Sign ''Union'') [HForwardRef ''Foo'', HForwardRef ''pkg.Bar''],
      HForwardRef ''Foo'', HForwardRef ''pkg.Bar''] \<and>
   snd (snd (projr (pep_code_check_hint example_config
         (HSub (Sign ''List'') [HSub (Sign ''Union'') [HForwardRef ''Foo'', HForwardRef ''pkg.Bar'']]))))
     = [''Foo''] \<and>
   fst (snd (projr (pep_code_check_hint example_config
         (HSub (Sign ''List'') [HSub (Sign ''Union'') [HForwardRef ''Foo'', HForwardRef ''pkg.Bar'']]))))
     NTypistry = Some OTypistry \<and>
   mentions (TForwardrefUnqualified ''Foo'')
     (check_expr (fst (projr (pep_code_check_hint example_config
         (HSub (Sign ''List'') [HSub (Sign ''Union'') [HForwardRef ''Foo'', HForwardRef ''pkg.Bar'']]))))) \<and>
   mentions (TTypistry ''pkg.Bar'')
     (check_expr (fst (projr (pep_code_check_hint example_config
         (HSub (Sign ''List'') [HSub (Sign ''Union'') [HForwardRef ''Foo'', HForwardRef ''pkg.Bar'']])))))"
proof -
  let ?u = "HSub (Sign ''Union'') [HForwardRef ''Foo'', HForwardRef ''pkg.Bar'']"
  let ?h = "HSub (Sign ''List'') [?u]"
  let ?r = "pep_code_check_hint example_config ?h"
  let ?c = "check_expr (fst (projr ?r))"
  let ?sc = "fst (snd (projr ?r))"
  let ?names = "snd (snd (projr ?r))"
  have i: "\<not> isl ?r" by code_simp
  then have e: "?r = Inr (RootCheck ?c (random_int_if_any (fst (projr ?r))), ?sc, ?names)"
    by (cases ?r) auto
  have d: "\<not> forwardref_shallow example_config"
    by (simp add: forwardref_shallow_def example_config_def)
  have v: "hints_visited example_config ?h = [?h, ?u, HForwardRef ''Foo'', HForwardRef ''pkg.Bar'']"
    by code_simp
  have n: "?names = [''Foo'']" by code_simp
  have cl: "\<forall>h\<in>set (hints_visited example_config ?h). hint_clean (reduce_hint h)"
    unfolding v by (simp add: text_clean_def PEP_CODE_HINT_CHILD_PLACEHOLDER_PREFIX_def sublist_code)
  have q: "HForwardRef ''pkg.Bar'' \<in> reduce_hint ` set (hints_visited example_config ?h) \<and>
      CHR ''.'' \<in> set ''pkg.Bar''"
    unfolding v by simp
  note t = forwardref_class_basenames[OF e d]
  from t have t3: "\<forall>n. HForwardRef n \<in> reduce_hint ` set (hints_visited example_config ?h) \<and>
      CHR ''.'' \<in> set n \<longrightarrow> n \<notin> set ?names \<and> ?sc NTypistry = Some OTypistry"
    by (elim conjE)
  from t cl have t5: "(\<forall>n \<in> set ?names. mentions (TForwardrefUnqualified n) ?c) \<and>
      (\<forall>n. HForwardRef n \<in> reduce_hint ` set (hints_visited example_config ?h) \<and>
           CHR ''.'' \<in> set n \<longrightarrow> mentions (TTypistry n) ?c)"
    by (elim conjE) (erule mp)
  from t3 q have ty: "?sc NTypistry = Some OTypistry" by (elim allE[of _ "''pkg.Bar''"]) simp
  from t5 n have m1: "mentions (TForwardrefUnqualified ''Foo'') ?c" by simp
  from t5 q have m2: "mentions (TTypistry ''pkg.Bar'') ?c"
    by (elim conjE allE[of _ "''pkg.Bar''"]) simp
  from i d v n ty m1 m2 show ?thesis by (intro conjI)
qed

text \<open>
  A classname that contains the placeholder of a hint visited later is rewritten when that
  placeholder is replaced. The tuple of the forward reference to \<open>@[2)!\<close> and a list returns
  that name, but the returned code no longer tests against its second-stage placeholder.
\<close>

theorem forwardref_placeholder_overwritten:
  "\<not> isl (pep_code_check_hint example_config
      (HSub (Sign ''Tuple'') [HForwardRef ''@[2)!'', HSub (Sign ''List'') [HClass ''int'']])) \<and>
   snd (snd (projr (pep_code_check_hint example_config
      (HSub (Sign ''Tuple'') [HForwardRef ''@[2)!'', HSub (Sign ''List'') [HClass ''int'']]))))
     = [''@[2)!''] \<and>
   check_expr (fst (projr (pep_code_check_hint example_config
      (HSub (Sign ''Tuple'') [HForwardRef ''@[2)!'', HSub (Sign ''List'') [HClass ''int'']]))))
     = And [IsInstance (PVar 0) TTuple, LenEq (PVar 0) 2,
            Spliced (IsInstance (PItem (PVar 0) 0) (TForwardrefUnqualified ''@[2)!''))
              [Raw [],
               And [IsInstance (PAssign 2 (PItem (PVar 0) 1)) (TName (NType ''list'')),
                    Or [Not (PVar 2),
                        IsInstance (PRandItem (PVar 2)) (TName (NType ''int''))]],
               Raw []],
            And [IsInstance (PAssign 2 (PItem (PVar 0) 1)) (TName (NType ''list'')),
                 Or [Not (PVar 2),
                     IsInstance (PRandItem (PVar 2)) (TName (NType ''int''))]]] \<and>
   \<not> mentions (TForwardrefUnqualified ''@[2)!'')
      (check_expr (fst (projr (pep_code_check_hint example_config
        (HSub (Sign ''Tuple'') [HForwardRef ''@[2)!'', HSub (Sign ''List'') [HClass ''int'']])))))"
proof -
  let ?r = "pep_code_check_hint example_config
      (HSub (Sign ''Tuple'') [HForwardRef ''@[2)!'', HSub (Sign ''List'') [HClass ''int'']])"
  have 1: "\<not> isl ?r" by code_simp
  have 2: "snd (snd (projr ?r)) = [''@[2)!'']" by code_simp
  have 3: "\<not> mentions (TForwardrefUnqualified ''@[2)!'') (check_expr (fst (projr ?r)))"
    by code_simp
  have 4: "check_expr (fst (projr ?r))
     = And [IsInstance (PVar 0) TTuple, LenEq (PVar 0) 2,
            Spliced (IsInstance (PItem (PVar 0) 0) (TForwardrefUnqualified ''@[2)!''))
              [Raw [],
               And [IsInstance (PAssign 2 (PItem (PVar 0) 1)) (TName (NType ''list'')),
                    Or [Not (PVar 2),
                        IsInstance (PRandItem (PVar 2)) (TName (NType ''int''))]],
               Raw []],
            And [IsInstance (PAssign 2 (PItem (PVar 0) 1)) (TName (NType ''list'')),
                 Or [Not (PVar 2),
                     IsInstance (PRandItem (PVar 2)) (TName (NType ''int''))]]]"
    by code_simp
  from 1 2 3 4 show ?thesis by (intro conjI)
qed

end
